theory Spec2Isabelle
  imports Complex_Main "HOL-Library.Word"
begin

section \<open>Numeric values\<close>

text \<open>
  The notebook computes on numpy float64 arrays. A value is modelled as a finite real or
  one of the IEEE special values, which numpy produces instead of raising (division by
  zero, \<open>-np.inf\<close> in the causal mask, \<open>log 0\<close>). Arithmetic on finite values is exact,
  except that \<open>np.exp\<close> leaves the finite range as float64 does (\<open>fexp\<close> below). Rounding,
  the overflow and underflow of the other operations and the sign of zero are not part
  of this model (a zero divisor is taken as \<open>+0\<close>).
\<close>

datatype fl = Fin real | PInf | NInf | NaN

datatype error = ValueError | IndexError

text \<open>An exception leaves the function at once: the rest runs only on a value.\<close>

definition bind_err :: "error + 'a \<Rightarrow> ('a \<Rightarrow> error + 'b) \<Rightarrow> error + 'b" where
  "bind_err m f = (case m of Inl e \<Rightarrow> Inl e | Inr v \<Rightarrow> f v)"

fun inf_of_sign :: "real \<Rightarrow> fl" where
  "inf_of_sign s = (if 0 < s then PInf else if s < 0 then NInf else NaN)"

fun sign_of :: "fl \<Rightarrow> real" where
  "sign_of (Fin a) = sgn a"
| "sign_of PInf = 1"
| "sign_of NInf = - 1"
| "sign_of NaN = 0"

fun fneg :: "fl \<Rightarrow> fl" where
  "fneg (Fin a) = Fin (- a)"
| "fneg PInf = NInf"
| "fneg NInf = PInf"
| "fneg NaN = NaN"

fun fadd :: "fl \<Rightarrow> fl \<Rightarrow> fl" where
  "fadd (Fin a) (Fin b) = Fin (a + b)"
| "fadd NaN _ = NaN"
| "fadd _ NaN = NaN"
| "fadd PInf NInf = NaN"
| "fadd NInf PInf = NaN"
| "fadd PInf _ = PInf"
| "fadd _ PInf = PInf"
| "fadd NInf _ = NInf"
| "fadd _ NInf = NInf"

definition fsub :: "fl \<Rightarrow> fl \<Rightarrow> fl" where
  "fsub a b = fadd a (fneg b)"

fun fmul :: "fl \<Rightarrow> fl \<Rightarrow> fl" where
  "fmul (Fin a) (Fin b) = Fin (a * b)"
| "fmul NaN _ = NaN"
| "fmul _ NaN = NaN"
| "fmul a b = inf_of_sign (sign_of a * sign_of b)"

fun fdiv :: "fl \<Rightarrow> fl \<Rightarrow> fl" where
  "fdiv (Fin a) (Fin b) = (if b = 0 then inf_of_sign a else Fin (a / b))"
| "fdiv NaN _ = NaN"
| "fdiv _ NaN = NaN"
| "fdiv (Fin a) _ = Fin 0"
| "fdiv a (Fin b) = inf_of_sign (sign_of a * (if 0 \<le> b then 1 else - 1))"
| "fdiv _ _ = NaN"

text \<open>
  \<open>np.exp\<close> on float64: the result is \<open>0.0\<close> when the exact value is at most \<open>2^-1075\<close>, half
  the smallest positive float64, and \<open>inf\<close> when it reaches \<open>2^1024\<close>. So \<open>np.exp(-745.2)\<close>
  is \<open>0.0\<close> and \<open>np.exp(709.8)\<close> is \<open>inf\<close>.
\<close>

definition exp_underflow :: real where
  "exp_underflow = - (1075 * ln 2)"

definition exp_overflow :: real where
  "exp_overflow = 1024 * ln 2"

fun fexp :: "fl \<Rightarrow> fl" where
  "fexp (Fin a) =
     (if a \<le> exp_underflow then Fin 0 else if exp_overflow \<le> a then PInf else Fin (exp a))"
| "fexp PInf = PInf"
| "fexp NInf = Fin 0"
| "fexp NaN = NaN"


fun fsqrt :: "fl \<Rightarrow> fl" where
  "fsqrt (Fin a) = (if 0 \<le> a then Fin (sqrt a) else NaN)"
| "fsqrt PInf = PInf"
| "fsqrt NInf = NaN"
| "fsqrt NaN = NaN"

fun fabs :: "fl \<Rightarrow> fl" where
  "fabs (Fin a) = Fin \<bar>a\<bar>"
| "fabs PInf = PInf"
| "fabs NInf = PInf"
| "fabs NaN = NaN"

text \<open>\<open>np.max\<close> and \<open>np.maximum\<close>: the larger value, NaN when either side is NaN.\<close>

fun fmax2 :: "fl \<Rightarrow> fl \<Rightarrow> fl" where
  "fmax2 (Fin a) (Fin b) = Fin (max a b)"
| "fmax2 NaN _ = NaN"
| "fmax2 _ NaN = NaN"
| "fmax2 PInf _ = PInf"
| "fmax2 _ PInf = PInf"
| "fmax2 NInf b = b"
| "fmax2 a NInf = a"

text \<open>IEEE comparison \<open><\<close>: false as soon as one side is NaN.\<close>

fun flt :: "fl \<Rightarrow> fl \<Rightarrow> bool" where
  "flt (Fin a) (Fin b) = (a < b)"
| "flt NaN _ = False"
| "flt _ NaN = False"
| "flt NInf b = (b \<noteq> NInf)"
| "flt a PInf = (a \<noteq> PInf)"
| "flt _ _ = False"

text \<open>\<open>np.sum\<close> of a one-dimensional array; the sum of an empty array is \<open>0.0\<close>.\<close>

definition fsum :: "fl list \<Rightarrow> fl" where
  "fsum xs = foldl fadd (Fin 0) xs"

section \<open>Softmax\<close>

text \<open>
  \<open>np.max(x, axis=-1, keepdims=True)\<close> has no identity: numpy raises ValueError when the
  reduced axis is empty.
\<close>

fun np_max :: "fl list \<Rightarrow> error + fl" where
  "np_max [] = Inl ValueError"
| "np_max (x # xs) = Inr (foldl fmax2 x xs)"

text \<open>The body of \<open>softmax\<close> once the row maximum \<open>m\<close> is known.\<close>

definition softmax_shift :: "fl \<Rightarrow> fl list \<Rightarrow> fl list" where
  "softmax_shift m xs =
     (let ex = map (\<lambda>v. fexp (fsub v m)) xs in map (\<lambda>e. fdiv e (fsum ex)) ex)"

text \<open>\<open>softmax\<close> on a one-dimensional array.\<close>

definition softmax :: "fl list \<Rightarrow> error + fl list" where
  "softmax xs = (case np_max xs of Inl e \<Rightarrow> Inl e | Inr m \<Rightarrow> Inr (softmax_shift m xs))"

section \<open>Arrays\<close>

text \<open>
  A one-dimensional array is a list. A two-dimensional array carries its shape, as an
  ndarray does, so that arrays with no row or no column keep their other dimension;
  \<open>at2 A i j\<close> is read only for \<open>i < shape0 A\<close> and \<open>j < shape1 A\<close>.
\<close>

datatype arr2 = Arr2 (shape0: nat) (shape1: nat) (at2: "nat \<Rightarrow> nat \<Rightarrow> fl")

definition real_arr2 :: "nat \<Rightarrow> nat \<Rightarrow> (nat \<Rightarrow> nat \<Rightarrow> real) \<Rightarrow> arr2" where
  "real_arr2 T D f = Arr2 T D (\<lambda>i j. Fin (f i j))"

definition row :: "arr2 \<Rightarrow> nat \<Rightarrow> fl list" where
  "row A i = map (at2 A i) [0..<shape1 A]"

definition map_arr2 :: "(fl \<Rightarrow> fl) \<Rightarrow> arr2 \<Rightarrow> arr2" where
  "map_arr2 f A = Arr2 (shape0 A) (shape1 A) (\<lambda>i j. f (at2 A i j))"

definition transpose2 :: "arr2 \<Rightarrow> arr2" where
  "transpose2 A = Arr2 (shape1 A) (shape0 A) (\<lambda>i j. at2 A j i)"

text \<open>A one-dimensional array in a two-dimensional operation is a single row.\<close>

definition as_row :: "fl list \<Rightarrow> arr2" where
  "as_row b = Arr2 1 (length b) (\<lambda>i j. b ! j)"

text \<open>The operator \<open>@\<close> on two-dimensional arrays: the inner dimensions must agree.\<close>

definition matmul :: "arr2 \<Rightarrow> arr2 \<Rightarrow> error + arr2" where
  "matmul A B =
     (if shape1 A \<noteq> shape0 B then Inl ValueError
      else Inr (Arr2 (shape0 A) (shape1 B)
        (\<lambda>i j. fsum (map (\<lambda>k. fmul (at2 A i k) (at2 B k j)) [0..<shape1 A]))))"

text \<open>
  numpy broadcasting of two dimensions: equal, or one of them is 1 (and is repeated).
\<close>

definition bdim :: "nat \<Rightarrow> nat \<Rightarrow> nat option" where
  "bdim a b = (if a = b then Some a else if a = 1 then Some b else if b = 1 then Some a else None)"

definition bidx :: "nat \<Rightarrow> nat \<Rightarrow> nat" where
  "bidx n i = (if n = 1 then 0 else i)"

definition broadcast2 :: "(fl \<Rightarrow> fl \<Rightarrow> fl) \<Rightarrow> arr2 \<Rightarrow> arr2 \<Rightarrow> error + arr2" where
  "broadcast2 f A B =
     (case bdim (shape0 A) (shape0 B) of
        None \<Rightarrow> Inl ValueError
      | Some r \<Rightarrow>
          (case bdim (shape1 A) (shape1 B) of
             None \<Rightarrow> Inl ValueError
           | Some c \<Rightarrow>
               Inr (Arr2 r c (\<lambda>i j. f (at2 A (bidx (shape0 A) i) (bidx (shape1 A) j))
                                       (at2 B (bidx (shape0 B) i) (bidx (shape1 B) j))))))"

text \<open>
  Python indexing of an axis of length \<open>n\<close>: a negative index counts from the end, and an
  index outside \<open>[-n, n)\<close> raises IndexError.
\<close>

definition py_index :: "nat \<Rightarrow> int \<Rightarrow> error + nat" where
  "py_index n i =
     (if 0 \<le> i \<and> i < int n then Inr (nat i)
      else if - int n \<le> i \<and> i < 0 then Inr (nat (i + int n))
      else Inl IndexError)"

text \<open>
  An integer array used as an index is cast by numpy to its index type, the signed 64-bit
  integer: an id is 64 bits read in two's complement (\<open>sint\<close>), so that an unsigned id
  of \<open>2^63\<close> or more is a negative index.
\<close>

type_synonym int64 = "64 word"

fun index_all :: "nat \<Rightarrow> int list \<Rightarrow> error + nat list" where
  "index_all n [] = Inr []"
| "index_all n (i # rest) =
     (case py_index n i of
        Inl e \<Rightarrow> Inl e
      | Inr k \<Rightarrow> (case index_all n rest of Inl e \<Rightarrow> Inl e | Inr ks \<Rightarrow> Inr (k # ks)))"

text \<open>The slices \<open>xs[s:]\<close> of Python, for an integer \<open>s\<close> of either sign.\<close>

definition slice_from :: "int \<Rightarrow> 'a list \<Rightarrow> 'a list" where
  "slice_from s xs =
     (let n = int (length xs); s' = (if s < 0 then max 0 (s + n) else min s n)
      in drop (nat s') xs)"

section \<open>1. Token embedding\<close>

text \<open>
  \<open>embedding_matrix[tokens]\<close>: the embedding matrix \<open>E\<close> (a module-level array drawn from
  the seeded generator) is a parameter; \<open>tokens\<close> is a one-dimensional integer array.
\<close>

definition tokens_to_embeddings :: "arr2 \<Rightarrow> int64 list \<Rightarrow> error + arr2" where
  "tokens_to_embeddings E tokens =
     (case index_all (shape0 E) (map sint tokens) of
        Inl e \<Rightarrow> Inl e
      | Inr ks \<Rightarrow> Inr (Arr2 (length ks) (shape1 E) (\<lambda>a j. at2 E (ks ! a) j)))"

section \<open>2. Scaled dot-product attention with causal mask\<close>

text \<open>
  \<open>softmax\<close> on a two-dimensional array: the reduction over an empty last axis raises, also
  when there is no row; otherwise every row goes through the one-dimensional computation
  (which cannot fail on a non-empty row, so the \<open>Inl\<close> branch below is never taken).
\<close>

definition softmax2 :: "arr2 \<Rightarrow> error + arr2" where
  "softmax2 A =
     (if shape1 A = 0 then Inl ValueError
      else Inr (Arr2 (shape0 A) (shape1 A)
        (\<lambda>i j. case softmax (row A i) of Inr r \<Rightarrow> r ! j | Inl e \<Rightarrow> NaN)))"

definition causal_mask :: "nat \<Rightarrow> arr2" where
  "causal_mask n = Arr2 n n (\<lambda>i j. if j \<le> i then Fin 1 else Fin 0)"

text \<open>The local \<open>weights\<close> of \<open>scaled_dot_product_attention\<close>.\<close>

definition attention_weights :: "arr2 \<Rightarrow> arr2 \<Rightarrow> error + arr2" where
  "attention_weights Q K =
     (let d_k = shape1 Q in
      case matmul Q (transpose2 K) of
        Inl e \<Rightarrow> Inl e
      | Inr qk \<Rightarrow>
          (let scores = map_arr2 (\<lambda>v. fdiv v (Fin (sqrt (real d_k)))) qk;
               mask = causal_mask (shape0 Q)
           in case broadcast2 (\<lambda>m s. if m = Fin 1 then s else NInf) mask scores of
                Inl e \<Rightarrow> Inl e
              | Inr masked \<Rightarrow> softmax2 masked))"

definition scaled_dot_product_attention :: "arr2 \<Rightarrow> arr2 \<Rightarrow> arr2 \<Rightarrow> error + arr2" where
  "scaled_dot_product_attention Q K V =
     (case attention_weights Q K of Inl e \<Rightarrow> Inl e | Inr weights \<Rightarrow> matmul weights V)"

section \<open>3. Layer normalization\<close>

text \<open>\<open>np.mean\<close> and \<open>np.std\<close> along the last axis; on an empty row both are NaN.\<close>

definition np_mean :: "fl list \<Rightarrow> fl" where
  "np_mean xs = fdiv (fsum xs) (Fin (real (length xs)))"

definition np_std :: "fl list \<Rightarrow> fl" where
  "np_std xs =
     (let m = np_mean xs
      in fsqrt (np_mean (map (\<lambda>v. let d = fabs (fsub v m) in fmul d d) xs)))"

definition layer_norm :: "arr2 \<Rightarrow> real \<Rightarrow> arr2" where
  "layer_norm x eps =
     Arr2 (shape0 x) (shape1 x)
       (\<lambda>i j. fdiv (fsub (at2 x i j) (np_mean (row x i))) (fadd (np_std (row x i)) (Fin eps)))"

section \<open>4. Dropout\<close>

text \<open>
  The process-wide generator is passed explicitly: its state is the sequence of uniform
  draws it will return, each in \<open>[0, 1)\<close>. \<open>np.random.rand(*x.shape)\<close> fills the array in
  row-major order and consumes one draw per element.
\<close>

type_synonym rng = "nat \<Rightarrow> real"

definition valid_rng :: "rng \<Rightarrow> bool" where
  "valid_rng g = (\<forall>n. 0 \<le> g n \<and> g n < 1)"

definition random_sample :: "rng \<Rightarrow> real \<times> rng" where
  "random_sample g = (g 0, \<lambda>n. g (Suc n))"

definition dropout :: "arr2 \<Rightarrow> real \<Rightarrow> rng \<Rightarrow> arr2 \<times> rng" where
  "dropout x p g =
     (let T = shape0 x; D = shape1 x;
          mask = (\<lambda>i j. if p < g (i * D + j) then Fin 1 else Fin 0)
      in (Arr2 T D (\<lambda>i j. fdiv (fmul (at2 x i j) (mask i j)) (Fin (1 - p))),
          \<lambda>n. g (n + T * D)))"

section \<open>5. Feed-forward network\<close>

definition relu :: "arr2 \<Rightarrow> arr2" where
  "relu x = map_arr2 (fmax2 (Fin 0)) x"

definition feed_forward :: "arr2 \<Rightarrow> arr2 \<Rightarrow> fl list \<Rightarrow> arr2 \<Rightarrow> fl list \<Rightarrow> error + arr2" where
  "feed_forward x W1 b1 W2 b2 =
     (case matmul x W1 of
        Inl e \<Rightarrow> Inl e
      | Inr h \<Rightarrow>
          (case broadcast2 fadd h (as_row b1) of
             Inl e \<Rightarrow> Inl e
           | Inr hb \<Rightarrow>
               (case matmul (relu hb) W2 of
                  Inl e \<Rightarrow> Inl e
                | Inr y \<Rightarrow> broadcast2 fadd y (as_row b2))))"

section \<open>6. Transformer block\<close>

text \<open>\<open>layer_norm\<close> is called with its default \<open>eps=1e-6\<close>.\<close>

definition default_eps :: real where
  "default_eps = 1 / 10 ^ 6"

definition transformer_block ::
  "arr2 \<Rightarrow> arr2 \<Rightarrow> arr2 \<Rightarrow> arr2 \<Rightarrow> arr2 \<Rightarrow> fl list \<Rightarrow> arr2 \<Rightarrow> fl list \<Rightarrow> error + arr2" where
  "transformer_block x W_q W_k W_v W1 b1 W2 b2 =
     bind_err (matmul x W_q) (\<lambda>Q.
     bind_err (matmul x W_k) (\<lambda>K.
     bind_err (matmul x W_v) (\<lambda>V.
     bind_err (scaled_dot_product_attention Q K V) (\<lambda>attn.
     bind_err (broadcast2 fadd x attn) (\<lambda>xa.
     let x1 = layer_norm xa default_eps in
     bind_err (feed_forward x1 W1 b1 W2 b2) (\<lambda>ffn.
     bind_err (broadcast2 fadd x1 ffn) (\<lambda>xf.
     Inr (layer_norm xf default_eps))))))))"

section \<open>8. Cross-entropy loss\<close>


section \<open>9. Text generation strategies\<close>

text \<open>
  The order in which numpy sorts: \<open><\<close>, with NaN after everything else. \<open>np.argsort\<close>
  (introsort by default) returns some permutation of the indices that puts the values in
  this order; which one, among equal values, is not specified, so the permutation it
  returned is a parameter \<open>order\<close> of the sampling functions, constrained by \<open>is_argsort\<close>.
\<close>

definition sort_lt :: "fl \<Rightarrow> fl \<Rightarrow> bool" where
  "sort_lt a b = (flt a b \<or> (b = NaN \<and> a \<noteq> NaN))"

definition is_argsort :: "fl list \<Rightarrow> nat list \<Rightarrow> bool" where
  "is_argsort xs order =
     (distinct order \<and> set order = set [0..<length xs] \<and>
      sorted_wrt (\<lambda>i j. \<not> sort_lt (xs ! j) (xs ! i)) order)"

fun cumsum_from :: "fl \<Rightarrow> fl list \<Rightarrow> fl list" where
  "cumsum_from acc [] = []"
| "cumsum_from acc (x # xs) = fadd acc x # cumsum_from (fadd acc x) xs"

definition cumsum :: "fl list \<Rightarrow> fl list" where
  "cumsum xs = cumsum_from (Fin 0) xs"

text \<open>
  \<open>np.searchsorted\<close> on an array in sorting order: the first position whose element is not
  below \<open>v\<close> (side left, the default), or is above \<open>v\<close> (side right).
\<close>

definition searchsorted_left :: "fl list \<Rightarrow> fl \<Rightarrow> nat" where
  "searchsorted_left a v = length (takeWhile (\<lambda>c. sort_lt c v) a)"

definition searchsorted_right :: "fl list \<Rightarrow> fl \<Rightarrow> nat" where
  "searchsorted_right a v = length (takeWhile (\<lambda>c. \<not> sort_lt v c) a)"

text \<open>
  \<open>np.random.choice(a, p=p)\<close> for a one-dimensional \<open>a\<close>: the checks of the arguments, then
  one uniform draw inverted through the cumulative distribution.
\<close>

definition choice_atol :: real where
  "choice_atol = 1 / 2 ^ 26"

definition choice :: "nat list \<Rightarrow> fl list \<Rightarrow> rng \<Rightarrow> error + (nat \<times> rng)" where
  "choice a p g =
     (if a = [] then Inl ValueError
      else if length p \<noteq> length a then Inl ValueError
      else if fsum p = NaN then Inl ValueError
      else if list_ex (\<lambda>x. flt x (Fin 0)) p then Inl ValueError
      else if flt (Fin choice_atol) (fabs (fsub (fsum p) (Fin 1))) then Inl ValueError
      else
        (let cdf = cumsum p;
             cdf' = map (\<lambda>c. fdiv c (last cdf)) cdf;
             (u, g') = random_sample g;
             i = searchsorted_right cdf' (Fin u)
         in if i < length a then Inr (a ! i, g') else Inl IndexError))"

definition top_k_sampling :: "nat list \<Rightarrow> fl list \<Rightarrow> int \<Rightarrow> rng \<Rightarrow> error + (nat \<times> rng)" where
  "top_k_sampling order logits k g =
     (let idx = slice_from (- k) order
      in case softmax (map (\<lambda>i. logits ! i) idx) of
           Inl e \<Rightarrow> Inl e
         | Inr probs \<Rightarrow> choice idx probs g)"

text \<open>The local \<open>selected\<close> of \<open>top_p_sampling\<close>.\<close>

definition top_p_selected :: "nat list \<Rightarrow> fl list \<Rightarrow> real \<Rightarrow> error + nat list" where
  "top_p_selected order logits p =
     (let sorted_idx = rev order
      in case softmax (map (\<lambda>i. logits ! i) sorted_idx) of
           Inl e \<Rightarrow> Inl e
         | Inr sorted_probs \<Rightarrow>
             (let cum_probs = cumsum sorted_probs;
                  cutoff = searchsorted_left cum_probs (Fin p)
              in Inr (take (cutoff + 1) sorted_idx)))"

definition top_p_sampling :: "nat list \<Rightarrow> fl list \<Rightarrow> real \<Rightarrow> rng \<Rightarrow> error + (nat \<times> rng)" where
  "top_p_sampling order logits p g =
     (case top_p_selected order logits p of
        Inl e \<Rightarrow> Inl e
      | Inr selected \<Rightarrow>
          (case softmax (map (\<lambda>i. logits ! i) selected) of
             Inl e \<Rightarrow> Inl e
           | Inr probs \<Rightarrow> choice selected probs g))"

section \<open>Reference definitions\<close>

text \<open>
  Softmax as the specification words it: exponentiation followed by sum-normalization,
  on real numbers, without the shift by the row maximum that the code applies.
\<close>

definition softmax_spec :: "real list \<Rightarrow> real list" where
  "softmax_spec xs = map (\<lambda>v. exp v / (\<Sum>u\<leftarrow>xs. exp u)) xs"

text \<open>
  What the code computes on a non-empty real row: the exponentials are taken after the
  shift by the row maximum, where \<open>np.exp\<close> may underflow to 0 but cannot overflow.
\<close>

definition exp64 :: "real \<Rightarrow> real" where
  "exp64 t = (if t \<le> exp_underflow then 0 else exp t)"

definition softmax_real :: "real list \<Rightarrow> real list" where
  "softmax_real xs =
     map (\<lambda>v. exp64 (v - Max (set xs)) / (\<Sum>u\<leftarrow>xs. exp64 (u - Max (set xs)))) xs"

text \<open>
  The row statistics of the specification of \<open>layer_norm\<close>: the mean of a row of \<open>D\<close> reals
  and its population standard deviation (divisor \<open>D\<close>, not \<open>D - 1\<close>).
\<close>

definition row_mean :: "nat \<Rightarrow> (nat \<Rightarrow> real) \<Rightarrow> real" where
  "row_mean D r = (\<Sum>j<D. r j) / real D"

definition row_std :: "nat \<Rightarrow> (nat \<Rightarrow> real) \<Rightarrow> real" where
  "row_std D r = sqrt ((\<Sum>j<D. (r j - row_mean D r)\<^sup>2) / real D)"


text \<open>
  One of the orders \<open>np.argsort\<close> may return on real logits: the stable one.
\<close>

definition argsort_stable :: "real list \<Rightarrow> nat list" where
  "argsort_stable x = sort_key (\<lambda>i. x ! i) [0..<length x]"

section \<open>Finite values stay finite\<close>

lemma foldl_fadd_Fin: "foldl fadd (Fin a) (map Fin rs) = Fin (a + sum_list rs)"
  by (induction rs arbitrary: a) (simp_all add: add.assoc)

lemma fsum_Fin: "fsum (map Fin rs) = Fin (sum_list rs)"
  by (simp add: fsum_def foldl_fadd_Fin)

lemma foldl_fmax2_Fin: "foldl fmax2 (Fin a) (map Fin rs) = Fin (foldl max a rs)"
  by (induction rs arbitrary: a) simp_all

lemma sum_list_exp_pos: "xs \<noteq> [] \<Longrightarrow> 0 < (\<Sum>u\<leftarrow>xs. exp (f u :: real))"
  by (induction xs) (auto simp: add_pos_nonneg sum_list_nonneg intro!: add_pos_nonneg sum_list_nonneg)

lemma sum_list_divide: "(\<Sum>x\<leftarrow>xs. f x / (c::real)) = (\<Sum>x\<leftarrow>xs. f x) / c"
  by (induction xs) (simp_all add: add_divide_distrib)

lemma sum_list_upt: "sum_list (map g [0..<n]) = (\<Sum>k<n. g k :: real)"
  by (simp add: interv_sum_list_conv_sum_set_nat atLeast0LessThan)

lemma row_real: "row (real_arr2 T N f) i = map Fin (map (f i) [0..<N])"
  by (simp add: row_def real_arr2_def)

lemma at2_row: "j < shape1 R \<Longrightarrow> at2 R i j = row R i ! j"
  by (simp add: row_def)

section \<open>Softmax on real rows\<close>

text \<open>
  After the shift by the row maximum every argument of \<open>np.exp\<close> is \<open>\<le> 0\<close>: it cannot
  overflow, and the maximum itself contributes \<open>exp 0 = 1\<close> to the sum.
\<close>

lemma exp_underflow_neg: "exp_underflow < 0"
  by (simp add: exp_underflow_def)

lemma exp_overflow_pos: "0 < exp_overflow"
  by (simp add: exp_overflow_def)



lemma fexp_nonpos: "t \<le> 0 \<Longrightarrow> fexp (Fin t) = Fin (exp64 t)"
  using exp_overflow_pos by (simp add: exp64_def)

lemma exp64_nonneg: "0 \<le> exp64 t"
  by (simp add: exp64_def)

lemma exp64_zero: "exp64 0 = 1"
  using exp_underflow_neg by (simp add: exp64_def)

lemma exp64_pos_iff: "0 < exp64 t \<longleftrightarrow> exp_underflow < t"
  by (simp add: exp64_def)


lemma exp64_le_one: "t \<le> 0 \<Longrightarrow> exp64 t \<le> 1"
  by (simp add: exp64_def)

lemma foldl_max_Max: "foldl max a rs = Max (set (a # rs))" for a :: real
proof -
  have "(\<lambda>x s. max s x) = (max :: real \<Rightarrow> real \<Rightarrow> real)" by (intro ext) (rule max.commute)
  then have "foldl max a rs = fold max rs a" by (simp add: foldl_conv_fold)
  then show ?thesis by (simp only: Max.set_eq_fold)
qed

lemma member_le_sum_list_real:
  fixes xs :: "real list"
  assumes "\<forall>v\<in>set xs. 0 \<le> v" "x \<in> set xs"
  shows "x \<le> sum_list xs"
  using assms
proof (induction xs)
  case Nil
  then show ?case by simp
next
  case (Cons a xs)
  have "0 \<le> sum_list xs" using Cons.prems(1) by (intro sum_list_nonneg) simp
  then show ?case using Cons by auto
qed

lemma sum_list_exp64_ge_one:
  assumes "xs \<noteq> []"
  shows "1 \<le> (\<Sum>u\<leftarrow>xs. exp64 (u - Max (set xs)))"
proof -
  have "Max (set xs) \<in> set xs" using assms by (intro Max_in) simp_all
  then have "exp64 (Max (set xs) - Max (set xs)) \<in> set (map (\<lambda>u. exp64 (u - Max (set xs))) xs)"
    unfolding set_map by (rule imageI)
  then show ?thesis
    using member_le_sum_list_real[of "map (\<lambda>u. exp64 (u - Max (set xs))) xs" "exp64 (Max (set xs) - Max (set xs))"]
    by (simp add: exp64_zero exp64_nonneg)
qed

lemma softmax_real_row:
  assumes "xs \<noteq> []"
  shows "softmax (map Fin xs) = Inr (map Fin (softmax_real xs))"
proof -
  let ?M = "Max (set xs)"
  let ?S = "\<Sum>u\<leftarrow>xs. exp64 (u - ?M)"
  obtain a rs where xs: "xs = a # rs" using assms by (cases xs) auto
  have mx: "np_max (map Fin xs) = Inr (Fin ?M)"
    by (simp add: xs foldl_fmax2_Fin foldl_max_Max)
  have pos: "?S \<noteq> 0" using sum_list_exp64_ge_one[OF assms] by simp
  have ex: "map (\<lambda>v. fexp (fsub v (Fin ?M))) (map Fin xs) = map Fin (map (\<lambda>v. exp64 (v - ?M)) xs)"
    unfolding map_map by (rule map_cong) (simp_all add: fsub_def fexp_nonpos del: fexp.simps)
  have "softmax_shift (Fin ?M) (map Fin xs) = map Fin (softmax_real xs)"
    unfolding softmax_shift_def ex Let_def fsum_Fin softmax_real_def using pos
    by (simp add: comp_def)
  then show ?thesis by (simp add: softmax_def mx)
qed

lemma length_softmax_real: "length (softmax_real xs) = length xs"
  by (simp add: softmax_real_def)

lemma softmax_real_nonneg: "xs \<noteq> [] \<Longrightarrow> q \<in> set (softmax_real xs) \<Longrightarrow> 0 \<le> q"
  using sum_list_exp64_ge_one[of xs] by (auto simp: softmax_real_def exp64_nonneg)

lemma softmax_real_sum: "xs \<noteq> [] \<Longrightarrow> sum_list (softmax_real xs) = 1"
  using sum_list_exp64_ge_one[of xs] by (simp add: softmax_real_def sum_list_divide comp_def)




lemma softmax_empty: "softmax [] = Inl ValueError"
  by (simp add: softmax_def)

lemma softmax_spec_pos: "p \<in> set (softmax_spec xs) \<Longrightarrow> 0 < p"
  by (auto simp: softmax_spec_def intro!: divide_pos_pos sum_list_exp_pos[where f="\<lambda>u. u"])

lemma softmax_spec_sum: "xs \<noteq> [] \<Longrightarrow> sum_list (softmax_spec xs) = 1"
  using sum_list_exp_pos[where f="\<lambda>u. u", of xs]
  by (simp add: softmax_spec_def sum_list_divide comp_def)

lemma length_softmax_spec: "length (softmax_spec xs) = length xs"
  by (simp add: softmax_spec_def)

lemma softmax2_real:
  assumes "0 < N"
  shows "softmax2 (real_arr2 T N f) =
           Inr (Arr2 T N (\<lambda>i j. map Fin (softmax_real (map (f i) [0..<N])) ! j))"
proof -
  have ne: "map (f i) [0..<N] \<noteq> []" for i using assms by simp
  have sh: "shape0 (real_arr2 T N f) = T" "shape1 (real_arr2 T N f) = N"
    by (simp_all add: real_arr2_def)
  show ?thesis
    unfolding softmax2_def sh row_real softmax_real_row[OF ne] using assms by simp
qed

lemma softmax2_real_row:
  assumes "0 < N"
  shows "\<exists>R. softmax2 (real_arr2 T N f) = Inr R \<and> shape0 R = T \<and> shape1 R = N \<and>
           (\<forall>i. row R i = map Fin (softmax_real (map (f i) [0..<N])))"
proof -
  let ?R = "Arr2 T N (\<lambda>i j. map Fin (softmax_real (map (f i) [0..<N])) ! j)"
  have "row ?R i = map Fin (softmax_real (map (f i) [0..<N]))" for i
    by (rule nth_equalityI) (simp_all add: row_def length_softmax_real)
  then show ?thesis using softmax2_real[OF assms, of T f] by simp
qed

lemma softmax2_no_columns: "shape1 A = 0 \<Longrightarrow> softmax2 A = Inl ValueError"
  by (simp add: softmax2_def)

section \<open>Softmax returns a distribution\<close>

text \<open>
  C2. For every real row vector, and every row of a real matrix, fed to \<open>softmax\<close>, every
  entry of the result is a non-negative real and the entries of each row of the result
  sum to 1. The sum is exactly 1 in this model, hence within the tolerance of 1e-6. A row
  has at least one entry: on an empty row \<open>np.max\<close> raises (\<open>softmax_empty\<close>,
  \<open>softmax2_no_columns\<close>) and there is no result.
\<close>

theorem softmax_is_distribution:
  "(xs \<noteq> [] \<longrightarrow>
      (\<exists>ps. softmax (map Fin xs) = Inr ps \<and> length ps = length xs \<and>
            (\<forall>v\<in>set ps. \<exists>p. v = Fin p \<and> 0 \<le> p) \<and> fsum ps = Fin 1)) \<and>
   (0 < N \<longrightarrow>
      (\<exists>R. softmax2 (real_arr2 T N f) = Inr R \<and> shape0 R = T \<and> shape1 R = N \<and>
            (\<forall>i<T. (\<forall>j<N. \<exists>p. at2 R i j = Fin p \<and> 0 \<le> p) \<and> fsum (row R i) = Fin 1)))"
proof (intro conjI impI)
  assume ne: "xs \<noteq> []"
  have "softmax (map Fin xs) = Inr (map Fin (softmax_real xs))" by (rule softmax_real_row[OF ne])
  moreover have "length (map Fin (softmax_real xs)) = length xs" by (simp add: length_softmax_real)
  moreover have "\<forall>v\<in>set (map Fin (softmax_real xs)). \<exists>p. v = Fin p \<and> 0 \<le> p"
    using softmax_real_nonneg[OF ne] by fastforce
  moreover have "fsum (map Fin (softmax_real xs)) = Fin 1"
    by (simp only: fsum_Fin softmax_real_sum[OF ne])
  ultimately show "\<exists>ps. softmax (map Fin xs) = Inr ps \<and> length ps = length xs \<and>
            (\<forall>v\<in>set ps. \<exists>p. v = Fin p \<and> 0 \<le> p) \<and> fsum ps = Fin 1"
    by blast
next
  assume N: "0 < N"
  obtain R where R: "softmax2 (real_arr2 T N f) = Inr R" "shape0 R = T" "shape1 R = N"
    and rows: "\<And>i. row R i = map Fin (softmax_real (map (f i) [0..<N]))"
    using softmax2_real_row[OF N, of T f] by blast
  have ne: "map (f i) [0..<N] \<noteq> []" for i using N by simp
  have "(\<forall>j<N. \<exists>p. at2 R i j = Fin p \<and> 0 \<le> p) \<and> fsum (row R i) = Fin 1" for i
  proof (intro allI impI conjI)
    fix j assume j: "j < N"
    have "softmax_real (map (f i) [0..<N]) ! j \<in> set (softmax_real (map (f i) [0..<N]))"
      using j by (intro nth_mem) (simp add: length_softmax_real)
    then have "0 \<le> softmax_real (map (f i) [0..<N]) ! j" by (rule softmax_real_nonneg[OF ne])
    moreover have "at2 R i j = Fin (softmax_real (map (f i) [0..<N]) ! j)"
      using j R(3) by (simp add: at2_row rows length_softmax_real)
    ultimately show "\<exists>p. at2 R i j = Fin p \<and> 0 \<le> p" by auto
  next
    show "fsum (row R i) = Fin 1"
      by (simp only: rows fsum_Fin softmax_real_sum[OF ne])
  qed
  with R show "\<exists>R. softmax2 (real_arr2 T N f) = Inr R \<and> shape0 R = T \<and> shape1 R = N \<and>
            (\<forall>i<T. (\<forall>j<N. \<exists>p. at2 R i j = Fin p \<and> 0 \<le> p) \<and> fsum (row R i) = Fin 1)"
    by blast
qed

theorem softmax_is_distribution_witness:
  "(\<exists>ps. softmax (map Fin [0, 0]) = Inr ps \<and> length ps = 2 \<and> fsum ps = Fin 1) \<and>
   (\<exists>R. softmax2 (real_arr2 1 2 (\<lambda>i j. 0)) = Inr R \<and> shape0 R = 1 \<and> shape1 R = 2 \<and>
       fsum (row R 0) = Fin 1)"
  using softmax_is_distribution[of "[0, 0]" 2 1 "\<lambda>i j. 0"]
  by (auto simp del: map_map)

section \<open>Embedding lookup\<close>

lemma index_all_ok:
  "(\<forall>t\<in>set ts. - int n \<le> t \<and> t < int n) \<Longrightarrow>
   index_all n ts = Inr (map (\<lambda>t. nat (if t < 0 then t + int n else t)) ts)"
  by (induction ts) (auto simp: py_index_def)

lemma index_all_bad:
  "(\<exists>t\<in>set ts. int n \<le> t \<or> t < - int n) \<Longrightarrow> index_all n ts = Inl IndexError"
proof (induction ts)
  case Nil
  then show ?case by simp
next
  case (Cons a ts)
  show ?case
  proof (cases "int n \<le> a \<or> a < - int n")
    case True
    then show ?thesis by (auto simp: py_index_def)
  next
    case False
    with Cons.prems have "\<exists>t\<in>set ts. int n \<le> t \<or> t < - int n" by auto
    then have "index_all n ts = Inl IndexError" by (rule Cons.IH)
    then show ?thesis by (simp add: py_index_def)
  qed
qed

text \<open>
  C9 (as amended). The ids are 64-bit integers, as numpy's index type holds them. The
  lookup fails with IndexError exactly when some id is \<open>\<ge> N\<close> or \<open>< -N\<close>, and then nothing
  is returned. When every id is in \<open>[-N, N)\<close> it succeeds and row \<open>a\<close> of the result is row
  \<open>tokens[a]\<close> of the embedding matrix, counted from the end for a negative id; in
  particular, for ids in \<open>[0, N)\<close>, the corresponding rows.
\<close>

theorem tokens_to_embeddings_lookup:
  "((\<exists>t\<in>set tokens. int (shape0 E) \<le> sint t \<or> sint t < - int (shape0 E)) \<longrightarrow>
      tokens_to_embeddings E tokens = Inl IndexError) \<and>
   ((\<forall>t\<in>set tokens. - int (shape0 E) \<le> sint t \<and> sint t < int (shape0 E)) \<longrightarrow>
      (\<exists>R. tokens_to_embeddings E tokens = Inr R \<and>
           shape0 R = length tokens \<and> shape1 R = shape1 E \<and>
           (\<forall>a<length tokens. \<forall>j.
              at2 R a j =
                at2 E (nat (if sint (tokens ! a) < 0 then sint (tokens ! a) + int (shape0 E)
                            else sint (tokens ! a))) j)))"
proof (intro conjI impI)
  assume "\<exists>t\<in>set tokens. int (shape0 E) \<le> sint t \<or> sint t < - int (shape0 E)"
  then have "\<exists>t\<in>set (map sint tokens). int (shape0 E) \<le> t \<or> t < - int (shape0 E)" by simp
  then have "index_all (shape0 E) (map sint tokens) = Inl IndexError" by (rule index_all_bad)
  then show "tokens_to_embeddings E tokens = Inl IndexError"
    by (simp add: tokens_to_embeddings_def)
next
  let ?row = "\<lambda>t. nat (if t < 0 then t + int (shape0 E) else t)"
  assume "\<forall>t\<in>set tokens. - int (shape0 E) \<le> sint t \<and> sint t < int (shape0 E)"
  then have "\<forall>t\<in>set (map sint tokens). - int (shape0 E) \<le> t \<and> t < int (shape0 E)" by simp
  then have "index_all (shape0 E) (map sint tokens) = Inr (map ?row (map sint tokens))"
    by (rule index_all_ok)
  then have "tokens_to_embeddings E tokens =
      Inr (Arr2 (length tokens) (shape1 E) (\<lambda>a j. at2 E (map ?row (map sint tokens) ! a) j))"
    by (simp add: tokens_to_embeddings_def)
  then show "\<exists>R. tokens_to_embeddings E tokens = Inr R \<and>
           shape0 R = length tokens \<and> shape1 R = shape1 E \<and>
           (\<forall>a<length tokens. \<forall>j.
              at2 R a j =
                at2 E (nat (if sint (tokens ! a) < 0 then sint (tokens ! a) + int (shape0 E)
                            else sint (tokens ! a))) j)"
    by simp
qed

theorem tokens_to_embeddings_lookup_witness:
  "tokens_to_embeddings (real_arr2 2 1 (\<lambda>i j. real i)) [2] = Inl IndexError \<and>
   (\<exists>R. tokens_to_embeddings (real_arr2 2 1 (\<lambda>i j. real i)) [1, 0] = Inr R \<and>
        shape0 R = 2 \<and> shape1 R = 1 \<and> at2 R 0 0 = Fin 1 \<and> at2 R 1 0 = Fin 0)"
  using tokens_to_embeddings_lookup[of "[2]" "real_arr2 2 1 (\<lambda>i j. real i)"]
        tokens_to_embeddings_lookup[of "[1, 0]" "real_arr2 2 1 (\<lambda>i j. real i)"]
  by (auto simp: real_arr2_def All_less_Suc numeral_2_eq_2)

text \<open>
  C9 as stated fails: the id \<open>-1\<close> is below 0, and the lookup returns the last row instead
  of raising.
\<close>

theorem tokens_to_embeddings_negative_id:
  "sint (- 1 :: int64) < 0 \<and>
   (\<exists>R. tokens_to_embeddings (real_arr2 2 1 (\<lambda>i j. real i)) [- 1] = Inr R \<and>
        shape0 R = 1 \<and> at2 R 0 0 = Fin 1)"
  by (simp add: tokens_to_embeddings_def real_arr2_def py_index_def)

text \<open>
  The largest unsigned 64-bit id, \<open>2^64 - 1\<close>, is far above \<open>N\<close> as a number, but it is the
  same 64 bits as \<open>-1\<close>: the lookup returns the last row.
\<close>

lemma tokens_to_embeddings_uint64_max:
  "\<exists>R. tokens_to_embeddings (real_arr2 2 1 (\<lambda>i j. real i)) [word_of_nat (2 ^ 64 - 1)] = Inr R \<and>
       shape0 R = 1 \<and> at2 R 0 0 = Fin 1"
proof -
  have "(word_of_nat (2 ^ 64 - 1) :: int64) = - 1" by simp
  then show ?thesis
    by (simp add: tokens_to_embeddings_def real_arr2_def py_index_def)
qed

section \<open>Dropout\<close>

text \<open>
  C8 (as amended). With \<open>p = 0\<close>, dropout returns its input unchanged whenever every draw
  it consumes is non-zero. For a real matrix and \<open>0 \<le> p < 1\<close>, every element is zeroed when
  its draw is \<open>\<le> p\<close> and scaled by exactly \<open>1 / (1 - p)\<close> when its draw is \<open>> p\<close>. The
  generator advances by one draw per element.
\<close>

theorem dropout_elements:
  "(\<exists>R g'. dropout X p g = (R, g') \<and> shape0 R = shape0 X \<and> shape1 R = shape1 X \<and>
      g' = (\<lambda>n. g (n + shape0 X * shape1 X)) \<and>
      (p = 0 \<and> (\<forall>n < shape0 X * shape1 X. 0 < g n) \<longrightarrow>
         (\<forall>i < shape0 X. \<forall>j < shape1 X. at2 R i j = at2 X i j))) \<and>
   (0 \<le> p \<and> p < 1 \<longrightarrow>
      (\<forall>i<T. \<forall>j<D. at2 (fst (dropout (real_arr2 T D x) p g)) i j =
         (if p < g (i * D + j) then Fin (x i j * (1 / (1 - p))) else Fin 0)))"
proof (intro conjI impI)
  let ?T = "shape0 X" and ?D = "shape1 X"
  let ?R = "fst (dropout X p g)"
  have idx: "i * ?D + j < ?T * ?D" if "i < ?T" "j < ?D" for i j
  proof -
    have "i * ?D + j < i * ?D + ?D" using that by simp
    also have "\<dots> = Suc i * ?D" by simp
    also have "\<dots> \<le> ?T * ?D" using that by (intro mult_le_mono1) simp
    finally show ?thesis .
  qed
  have one: "fdiv (fmul v (Fin 1)) (Fin 1) = v" for v by (cases v) simp_all
  have "p = 0 \<and> (\<forall>n < ?T * ?D. 0 < g n) \<longrightarrow> (\<forall>i<?T. \<forall>j<?D. at2 ?R i j = at2 X i j)"
    using idx by (auto simp: dropout_def Let_def one)
  then show "\<exists>R g'. dropout X p g = (R, g') \<and> shape0 R = shape0 X \<and> shape1 R = shape1 X \<and>
      g' = (\<lambda>n. g (n + shape0 X * shape1 X)) \<and>
      (p = 0 \<and> (\<forall>n < shape0 X * shape1 X. 0 < g n) \<longrightarrow>
         (\<forall>i < shape0 X. \<forall>j < shape1 X. at2 R i j = at2 X i j))"
    by (intro exI[of _ ?R] exI[of _ "snd (dropout X p g)"]) (simp add: dropout_def Let_def)
next
  assume "0 \<le> p \<and> p < 1"
  then show "\<forall>i<T. \<forall>j<D. at2 (fst (dropout (real_arr2 T D x) p g)) i j =
         (if p < g (i * D + j) then Fin (x i j * (1 / (1 - p))) else Fin 0)"
    by (simp add: dropout_def Let_def real_arr2_def)
qed

theorem dropout_elements_witness:
  "at2 (fst (dropout (real_arr2 1 1 (\<lambda>i j. 3)) 0 (\<lambda>n. 1 / 2))) 0 0 = Fin 3 \<and>
   at2 (fst (dropout (real_arr2 1 1 (\<lambda>i j. 3)) (1 / 2) (\<lambda>n. 3 / 4))) 0 0 = Fin 6 \<and>
   at2 (fst (dropout (real_arr2 1 1 (\<lambda>i j. 3)) (1 / 2) (\<lambda>n. 1 / 4))) 0 0 = Fin 0"
  using dropout_elements[of "real_arr2 1 1 (\<lambda>i j. 3)" 0 "\<lambda>n. 1 / 2" 1 1 "\<lambda>i j. 3"]
        dropout_elements[of "real_arr2 1 1 (\<lambda>i j. 3)" "1 / 2" "\<lambda>n. 3 / 4" 1 1 "\<lambda>i j. 3"]
        dropout_elements[of "real_arr2 1 1 (\<lambda>i j. 3)" "1 / 2" "\<lambda>n. 1 / 4" 1 1 "\<lambda>i j. 3"]
  by (auto simp: real_arr2_def)

text \<open>
  C8 as stated fails: a generator whose next draw is exactly \<open>0.0\<close> (a value of
  \<open>[0, 1)\<close>) makes \<open>rand > p\<close> false at \<open>p = 0\<close>, and the element is zeroed.
\<close>

theorem dropout_zero_draw:
  "valid_rng (\<lambda>n. 0) \<and>
   at2 (real_arr2 1 1 (\<lambda>i j. 1)) 0 0 = Fin 1 \<and>
   at2 (fst (dropout (real_arr2 1 1 (\<lambda>i j. 1)) 0 (\<lambda>n. 0))) 0 0 = Fin 0"
  by (simp add: valid_rng_def dropout_def real_arr2_def)

section \<open>Layer normalization on real rows\<close>

lemma np_mean_Fin: "rs \<noteq> [] \<Longrightarrow> np_mean (map Fin rs) = Fin (sum_list rs / real (length rs))"
  by (simp add: np_mean_def fsum_Fin)

lemma np_mean_upt: "0 < D \<Longrightarrow> np_mean (map Fin (map r [0..<D])) = Fin (row_mean D r)"
  using np_mean_Fin[of "map r [0..<D]"] by (simp add: row_mean_def sum_list_upt)

lemma np_std_upt:
  assumes "0 < D"
  shows "np_std (map Fin (map r [0..<D])) = Fin (row_std D r)"
proof -
  let ?m = "row_mean D r"
  have sq: "map (\<lambda>v. fmul (fabs (fsub v (Fin ?m))) (fabs (fsub v (Fin ?m)))) (map Fin (map r [0..<D]))
          = map Fin (map (\<lambda>j. (r j - ?m)\<^sup>2) [0..<D])"
    by (simp add: fsub_def power2_eq_square)
  have nonneg: "0 \<le> row_mean D (\<lambda>j. (r j - ?m)\<^sup>2)"
    unfolding row_mean_def by (intro divide_nonneg_nonneg sum_nonneg) simp_all
  have "np_std (map Fin (map r [0..<D]))
      = fsqrt (np_mean (map (\<lambda>v. fmul (fabs (fsub v (Fin ?m))) (fabs (fsub v (Fin ?m))))
                          (map Fin (map r [0..<D]))))"
    by (simp only: np_std_def np_mean_upt[OF assms] Let_def)
  also have "\<dots> = fsqrt (Fin (row_mean D (\<lambda>j. (r j - ?m)\<^sup>2)))"
    by (simp only: sq np_mean_upt[OF assms])
  also have "\<dots> = Fin (row_std D r)"
    using nonneg by (simp add: row_std_def row_mean_def)
  finally show ?thesis .
qed

lemma row_std_nonneg: "0 \<le> row_std D r"
  by (simp add: row_std_def sum_nonneg)

lemma layer_norm_entry:
  assumes "0 < eps" "j < D"
  shows "at2 (layer_norm (real_arr2 T D x) eps) i j =
           Fin ((x i j - row_mean D (x i)) / (row_std D (x i) + eps))"
proof -
  have D: "0 < D" using assms by simp
  have ne: "row_std D (x i) + eps \<noteq> 0" using row_std_nonneg[of D "x i"] assms by linarith
  have "at2 (layer_norm (real_arr2 T D x) eps) i j =
          fdiv (fsub (Fin (x i j)) (Fin (row_mean D (x i)))) (fadd (Fin (row_std D (x i))) (Fin eps))"
    by (simp only: layer_norm_def row_real np_mean_upt[OF D] np_std_upt[OF D])
       (simp add: real_arr2_def)
  also have "\<dots> = Fin ((x i j - row_mean D (x i)) / (row_std D (x i) + eps))"
    using ne by (simp add: fsub_def)
  finally show ?thesis .
qed

text \<open>
  C7. For every real \<open>T \<times> D\<close> matrix \<open>x\<close> and every \<open>eps > 0\<close>, \<open>layer_norm\<close> returns an array of
  the same shape whose entry \<open>(i, j)\<close> is the finite real
  \<open>(x i j - mean of row i) / (population standard deviation of row i + eps)\<close>, each row
  on its own. The function has no failing path; the divisor is positive, so a row of zero
  variance is mapped to zeros rather than to NaN (compare \<open>layer_norm_without_eps\<close>).
\<close>

theorem layer_norm_rows:
  assumes "0 < eps"
  shows "shape0 (layer_norm (real_arr2 T D x) eps) = T \<and>
         shape1 (layer_norm (real_arr2 T D x) eps) = D \<and>
         (\<forall>i<T. \<forall>j<D.
            at2 (layer_norm (real_arr2 T D x) eps) i j =
              Fin ((x i j - row_mean D (x i)) / (row_std D (x i) + eps))) \<and>
         (\<forall>i<T. \<forall>c. (\<forall>j<D. x i j = c) \<longrightarrow>
            (\<forall>j<D. at2 (layer_norm (real_arr2 T D x) eps) i j = Fin 0))"
proof (intro conjI allI impI)
  show "shape0 (layer_norm (real_arr2 T D x) eps) = T"
    by (simp add: layer_norm_def real_arr2_def)
  show "shape1 (layer_norm (real_arr2 T D x) eps) = D"
    by (simp add: layer_norm_def real_arr2_def)
next
  fix i j assume "j < D"
  then show "at2 (layer_norm (real_arr2 T D x) eps) i j =
              Fin ((x i j - row_mean D (x i)) / (row_std D (x i) + eps))"
    by (rule layer_norm_entry[OF assms])
next
  fix i c j assume c: "\<forall>j<D. x i j = c" and j: "j < D"
  have m: "row_mean D (x i) = c" using c j by (simp add: row_mean_def)
  have xj: "x i j = c" using c j by simp
  have z: "x i j - row_mean D (x i) = 0" by (simp add: m xj)
  have "at2 (layer_norm (real_arr2 T D x) eps) i j =
          Fin ((x i j - row_mean D (x i)) / (row_std D (x i) + eps))"
    by (rule layer_norm_entry[OF assms j])
  also have "\<dots> = Fin 0" by (simp add: z)
  finally show "at2 (layer_norm (real_arr2 T D x) eps) i j = Fin 0" .
qed

theorem layer_norm_rows_witness:
  "at2 (layer_norm (real_arr2 1 2 (\<lambda>i j. 5)) (1 / 10 ^ 6)) 0 1 = Fin 0 \<and>
   shape0 (layer_norm (real_arr2 1 2 (\<lambda>i j. 5)) (1 / 10 ^ 6)) = 1 \<and>
   shape1 (layer_norm (real_arr2 1 2 (\<lambda>i j. 5)) (1 / 10 ^ 6)) = 2"
proof -
  have pos: "(0::real) < 1 / 10 ^ 6" by simp
  note th = layer_norm_rows[OF pos, of 1 2 "\<lambda>i j. 5"]
  have "\<forall>i<(1::nat). \<forall>c. (\<forall>j<(2::nat). (5::real) = c) \<longrightarrow>
          (\<forall>j<2. at2 (layer_norm (real_arr2 1 2 (\<lambda>i j. 5)) (1 / 10 ^ 6)) i j = Fin 0)"
    using th by blast
  then have "at2 (layer_norm (real_arr2 1 2 (\<lambda>i j. 5)) (1 / 10 ^ 6)) 0 1 = Fin 0"
    by simp
  with th show ?thesis by blast
qed

lemma layer_norm_without_eps:
  "at2 (layer_norm (real_arr2 1 2 (\<lambda>i j. 5)) 0) 0 1 = NaN"
  by (simp add: layer_norm_def real_arr2_def row_def np_mean_def np_std_def fsum_def fsub_def
      numeral_2_eq_2)

section \<open>Attention on real matrices\<close>

lemma fsum_Fin_upt: "fsum (map (\<lambda>k. Fin (g k)) [0..<n]) = Fin (\<Sum>k<n. g k)"
  using fsum_Fin[of "map g [0..<n]"] by (simp add: sum_list_upt comp_def)

lemma matmul_real:
  "matmul (real_arr2 a b f) (real_arr2 b c g) = Inr (real_arr2 a c (\<lambda>i j. \<Sum>k<b. f i k * g k j))"
  by (simp add: matmul_def real_arr2_def fsum_Fin_upt)

lemma transpose2_real: "transpose2 (real_arr2 a b f) = real_arr2 b a (\<lambda>i j. f j i)"
  by (simp add: transpose2_def real_arr2_def)

lemma bidx_id: "i < n \<Longrightarrow> bidx n i = i"
  by (auto simp: bidx_def)

lemma bdim_same: "bdim n n = Some n"
  by (simp add: bdim_def)

lemma shape_real: "shape0 (real_arr2 T D f) = T" "shape1 (real_arr2 T D f) = D"
  by (simp_all add: real_arr2_def)

lemma masked_scores_real:
  "broadcast2 (\<lambda>m s. if m = Fin 1 then s else NInf) (causal_mask T) (real_arr2 T T s) =
     Inr (Arr2 T T (\<lambda>i j. if bidx T j \<le> bidx T i then Fin (s (bidx T i) (bidx T j)) else NInf))"
  by (auto simp add: broadcast2_def causal_mask_def real_arr2_def bdim_same intro!: ext)

lemma masked_row:
  assumes "i < T"
  shows "row (Arr2 T T (\<lambda>i j. if bidx T j \<le> bidx T i then Fin (s (bidx T i) (bidx T j)) else NInf)) i
           = map (\<lambda>j. if j \<le> i then Fin (s i j) else NInf) [0..<T]"
  using assms by (simp add: row_def bidx_id)

text \<open>A row whose entries are finite or \<open>-inf\<close>, the first one finite.\<close>

lemma foldl_fmax2_masked:
  "\<exists>M. foldl fmax2 (Fin a) (map (case_option NInf Fin) os) = Fin M \<and>
       (M = a \<or> Some M \<in> set os) \<and> a \<le> M \<and> (\<forall>v. Some v \<in> set os \<longrightarrow> v \<le> M)"
proof (induction os arbitrary: a)
  case Nil
  then show ?case by simp
next
  case (Cons o1 os)
  show ?case
  proof (cases o1)
    case None
    then show ?thesis using Cons.IH[of a] by auto
  next
    case (Some v)
    obtain M where M: "foldl fmax2 (Fin (max a v)) (map (case_option NInf Fin) os) = Fin M"
      "M = max a v \<or> Some M \<in> set os" "max a v \<le> M" "\<forall>u. Some u \<in> set os \<longrightarrow> u \<le> M"
      using Cons.IH[of "max a v"] by blast
    have "M = a \<or> Some M \<in> set (o1 # os)" using M(2) Some by (auto simp: max_def split: if_splits)
    moreover have "a \<le> M" using M(3) by simp
    moreover have "\<forall>u. Some u \<in> set (o1 # os) \<longrightarrow> u \<le> M" using M(3,4) Some by auto
    ultimately show ?thesis using M(1) Some by simp
  qed
qed

lemma exps_masked:
  assumes "\<forall>v. Some v \<in> set os \<longrightarrow> v \<le> M"
  shows "map (\<lambda>v. fexp (fsub v (Fin M))) (map (case_option NInf Fin) os)
     = map Fin (map (case_option 0 (\<lambda>v. exp64 (v - M))) os)"
  unfolding map_map
proof (rule map_cong[OF refl])
  fix x assume x: "x \<in> set os"
  show "((\<lambda>v. fexp (fsub v (Fin M))) \<circ> case_option NInf Fin) x
      = (Fin \<circ> case_option 0 (\<lambda>v. exp64 (v - M))) x"
  proof (cases x)
    case None
    then show ?thesis by (simp add: fsub_def)
  next
    case (Some v)
    then have "v - M \<le> 0" using assms x by simp
    then show ?thesis using Some by (simp add: fsub_def fexp_nonpos del: fexp.simps(1))
  qed
qed

lemma masked_weights_nonneg: "0 \<le> case_option 0 (\<lambda>v. exp64 (v - M)) x"
  by (cases x) (simp_all add: exp64_nonneg)

lemma softmax_masked:
  "\<exists>M. softmax (map (case_option NInf Fin) (Some a # os)) =
     Inr (map Fin (map (\<lambda>x. case_option 0 (\<lambda>v. exp64 (v - M)) x /
                            (\<Sum>y\<leftarrow>Some a # os. case_option 0 (\<lambda>v. exp64 (v - M)) y))
                  (Some a # os))) \<and>
     0 < (\<Sum>y\<leftarrow>Some a # os. case_option 0 (\<lambda>v. exp64 (v - M)) y)"
proof -
  obtain M where M: "foldl fmax2 (Fin a) (map (case_option NInf Fin) os) = Fin M"
    and mem: "M = a \<or> Some M \<in> set os" and aM: "a \<le> M"
    and le: "\<forall>v. Some v \<in> set os \<longrightarrow> v \<le> M"
    using foldl_fmax2_masked by blast
  let ?w = "case_option 0 (\<lambda>v. exp64 (v - M))"
  let ?xs = "Some a # os"
  have le': "\<forall>v. Some v \<in> set ?xs \<longrightarrow> v \<le> M" using le aM by auto
  have "Some M \<in> set ?xs" using mem by auto
  then have "?w (Some M) \<in> set (map ?w ?xs)" unfolding set_map by (rule imageI)
  moreover have "\<forall>v\<in>set (map ?w ?xs). 0 \<le> v"
    by (auto simp: exp64_nonneg split: option.splits)
  ultimately have "?w (Some M) \<le> sum_list (map ?w ?xs)" by (intro member_le_sum_list_real)
  then have pos: "0 < (\<Sum>y\<leftarrow>?xs. ?w y)" by (simp add: exp64_zero)
  have "softmax (map (case_option NInf Fin) ?xs) = Inr (softmax_shift (Fin M) (map (case_option NInf Fin) ?xs))"
    using M by (simp add: softmax_def)
  also have "softmax_shift (Fin M) (map (case_option NInf Fin) ?xs)
      = map (\<lambda>e. fdiv e (Fin (\<Sum>y\<leftarrow>?xs. ?w y))) (map Fin (map ?w ?xs))"
    unfolding softmax_shift_def Let_def exps_masked[OF le'] fsum_Fin ..
  also have "\<dots> = map Fin (map (\<lambda>x. ?w x / (\<Sum>y\<leftarrow>?xs. ?w y)) ?xs)"
    using pos by (simp add: comp_def)
  finally show ?thesis using pos by blast
qed

lemma causal_row_softmax:
  assumes "i < T"
  shows "\<exists>w. softmax (map (\<lambda>j. if j \<le> i then Fin (s j) else NInf) [0..<T]) =
               Inr (map (\<lambda>j. Fin (w j)) [0..<T]) \<and>
             (\<forall>j. 0 \<le> w j) \<and> (\<forall>j. i < j \<longrightarrow> w j = 0) \<and> (\<Sum>j\<le>i. w j) = (1::real)"
proof -
  let ?o = "\<lambda>j. if j \<le> i then Some (s j) else None"
  have T: "0 < T" using assms by simp
  have split: "[0..<T] = 0 # [Suc 0..<T]" using T by (simp add: upt_conv_Cons)
  have row: "map (\<lambda>j. if j \<le> i then Fin (s j) else NInf) [0..<T]
           = map (case_option NInf Fin) (Some (s 0) # map ?o [Suc 0..<T])"
    unfolding split by simp
  obtain M where M: "softmax (map (case_option NInf Fin) (Some (s 0) # map ?o [Suc 0..<T])) =
     Inr (map Fin (map (\<lambda>x. case_option 0 (\<lambda>v. exp64 (v - M)) x /
                            (\<Sum>y\<leftarrow>Some (s 0) # map ?o [Suc 0..<T]. case_option 0 (\<lambda>v. exp64 (v - M)) y))
                  (Some (s 0) # map ?o [Suc 0..<T])))"
    and Mpos: "0 < (\<Sum>y\<leftarrow>Some (s 0) # map ?o [Suc 0..<T]. case_option 0 (\<lambda>v. exp64 (v - M)) y)"
    using softmax_masked by blast
  define e where "e j = (if j \<le> i then exp64 (s j - M) else 0)" for j
  define S where "S = (\<Sum>j<T. e j)"
  have os: "Some (s 0) # map ?o [Suc 0..<T] = map ?o [0..<T]"
    unfolding split by simp
  have e: "case_option 0 (\<lambda>v. exp64 (v - M)) (?o j) = e j" for j
    by (simp add: e_def)
  have sumS: "(\<Sum>y\<leftarrow>map ?o [0..<T]. case_option 0 (\<lambda>v. exp64 (v - M)) y) = S"
    unfolding S_def sum_list_upt[symmetric] by (simp add: comp_def e)
  have lhs: "map (\<lambda>j. if j \<le> i then Fin (s j) else NInf) [0..<T]
           = map (case_option NInf Fin) (map ?o [0..<T])"
    by simp
  have rhs: "map Fin (map (\<lambda>x. case_option 0 (\<lambda>v. exp64 (v - M)) x / S) (map ?o [0..<T]))
           = map (\<lambda>j. Fin (e j / S)) [0..<T]"
    by (simp add: comp_def e)
  have res: "softmax (map (\<lambda>j. if j \<le> i then Fin (s j) else NInf) [0..<T]) =
               Inr (map (\<lambda>j. Fin (e j / S)) [0..<T])"
    using M unfolding os sumS lhs rhs .
  have Spos: "0 < S" using Mpos unfolding os sumS .
  have Si: "S = (\<Sum>j\<le>i. e j)"
    unfolding S_def using assms
    by (intro sum.mono_neutral_right) (auto simp: e_def)
  have "(\<Sum>j\<le>i. e j / S) = 1"
    using Spos by (simp add: sum_divide_distrib[symmetric] Si)
  moreover have "\<forall>j. 0 \<le> e j / S" using Spos by (simp add: e_def exp64_nonneg)
  moreover have "\<forall>j. i < j \<longrightarrow> e j / S = 0" by (simp add: e_def)
  ultimately show ?thesis using res by (intro exI[of _ "\<lambda>j. e j / S"]) simp
qed

lemma attention_weights_real:
  assumes "0 < T" "0 < D"
  shows "\<exists>W w. attention_weights (real_arr2 T D q) (real_arr2 T D k) = Inr W \<and>
           shape0 W = T \<and> shape1 W = T \<and>
           (\<forall>i<T. \<forall>j<T. at2 W i j = Fin (w i j) \<and> 0 \<le> w i j \<and> (i < j \<longrightarrow> w i j = 0)) \<and>
           (\<forall>i<T. (\<Sum>j\<le>i. w i j) = (1::real))"
proof -
  define s where "s i j = (\<Sum>d<D. q i d * k j d) / sqrt (real D)" for i j
  let ?masked = "Arr2 T T (\<lambda>i j. if bidx T j \<le> bidx T i then Fin (s (bidx T i) (bidx T j)) else NInf)"
  let ?W = "Arr2 T T (\<lambda>i j. case softmax (row ?masked i) of Inr r \<Rightarrow> r ! j | Inl e \<Rightarrow> NaN)"
  have sq: "sqrt (real D) \<noteq> 0" using assms by simp
  have qk: "matmul (real_arr2 T D q) (transpose2 (real_arr2 T D k))
              = Inr (real_arr2 T T (\<lambda>i j. \<Sum>d<D. q i d * k j d))"
    by (simp only: transpose2_real matmul_real)
  have scores: "map_arr2 (\<lambda>v. fdiv v (Fin (sqrt (real D)))) (real_arr2 T T (\<lambda>i j. \<Sum>d<D. q i d * k j d))
              = real_arr2 T T s"
    using sq by (simp add: map_arr2_def real_arr2_def s_def)
  have W: "attention_weights (real_arr2 T D q) (real_arr2 T D k) = Inr ?W"
    using assms(1)
    by (simp only: attention_weights_def Let_def qk sum.case shape_real scores masked_scores_real)
       (simp add: softmax2_def)
  have "\<exists>w. \<forall>i. i < T \<longrightarrow>
          (softmax (map (\<lambda>j. if j \<le> i then Fin (s i j) else NInf) [0..<T]) =
               Inr (map (\<lambda>j. Fin (w i j)) [0..<T]) \<and>
             (\<forall>j. 0 \<le> w i j) \<and> (\<forall>j. i < j \<longrightarrow> w i j = 0) \<and> (\<Sum>j\<le>i. w i j) = (1::real))"
    by (intro choice allI) (use causal_row_softmax in blast)
  then obtain w where w: "\<And>i. i < T \<Longrightarrow>
          softmax (map (\<lambda>j. if j \<le> i then Fin (s i j) else NInf) [0..<T]) =
               Inr (map (\<lambda>j. Fin (w i j)) [0..<T])"
      and nonneg: "\<And>i j. i < T \<Longrightarrow> 0 \<le> w i j"
      and zero: "\<And>i j. i < T \<Longrightarrow> i < j \<Longrightarrow> w i j = 0"
      and one: "\<And>i. i < T \<Longrightarrow> (\<Sum>j\<le>i. w i j) = 1"
    by blast
  have at: "at2 ?W i j = Fin (w i j)" if "i < T" "j < T" for i j
    using that by (simp add: masked_row w)
  show ?thesis
    using W at nonneg zero one by (intro exI[of _ ?W] exI[of _ w]) simp
qed

text \<open>
  C1. For all real \<open>T \<times> D\<close> matrices \<open>Q\<close>, \<open>K\<close>, \<open>V\<close> (with \<open>T, D \<ge> 1\<close>) the attention succeeds; its
  weight matrix \<open>W\<close> is \<open>T \<times> T\<close> with non-negative real entries, the weight of position \<open>i\<close> on
  any later position \<open>j\<close> is exactly 0, and each row sums to 1 over its unmasked positions
  \<open>j \<le> i\<close>. The output is \<open>T \<times> D\<close>, row \<open>i\<close> being the weighted sum of the rows \<open>j \<le> i\<close> of \<open>V\<close>;
  in particular output row 0 is row 0 of \<open>V\<close>. Arrays with an empty dimension are the
  subject of \<open>attention_no_rows\<close> and \<open>attention_no_columns\<close> below.
\<close>

theorem causal_attention:
  assumes "0 < T" and "0 < D"
  shows "\<exists>W w R.
     attention_weights (real_arr2 T D q) (real_arr2 T D k) = Inr W \<and>
     shape0 W = T \<and> shape1 W = T \<and>
     (\<forall>i<T. \<forall>j<T. at2 W i j = Fin (w i j) \<and> 0 \<le> w i j \<and> (i < j \<longrightarrow> at2 W i j = Fin 0)) \<and>
     (\<forall>i<T. (\<Sum>j\<le>i. w i j) = 1) \<and>
     scaled_dot_product_attention (real_arr2 T D q) (real_arr2 T D k) (real_arr2 T D v) = Inr R \<and>
     shape0 R = T \<and> shape1 R = D \<and>
     (\<forall>i<T. \<forall>d<D. at2 R i d = Fin (\<Sum>j\<le>i. w i j * v j d)) \<and>
     (\<forall>d<D. at2 R 0 d = Fin (v 0 d))"
proof -
  obtain W w where W: "attention_weights (real_arr2 T D q) (real_arr2 T D k) = Inr W"
      and sh: "shape0 W = T" "shape1 W = T"
      and at: "\<And>i j. i < T \<Longrightarrow> j < T \<Longrightarrow> at2 W i j = Fin (w i j)"
      and nonneg: "\<And>i j. i < T \<Longrightarrow> j < T \<Longrightarrow> 0 \<le> w i j"
      and zero: "\<And>i j. i < T \<Longrightarrow> j < T \<Longrightarrow> i < j \<Longrightarrow> w i j = 0"
      and one: "\<And>i. i < T \<Longrightarrow> (\<Sum>j\<le>i. w i j) = 1"
    using attention_weights_real[OF assms, of q k] by blast
  let ?V = "real_arr2 T D v"
  let ?R = "Arr2 T D (\<lambda>i d. fsum (map (\<lambda>k. fmul (at2 W i k) (at2 ?V k d)) [0..<T]))"
  have R: "scaled_dot_product_attention (real_arr2 T D q) (real_arr2 T D k) ?V = Inr ?R"
    by (simp add: scaled_dot_product_attention_def W matmul_def sh shape_real)
  have entry: "at2 ?R i d = Fin (\<Sum>j\<le>i. w i j * v j d)" if i: "i < T" for i d
  proof -
    have "map (\<lambda>k. fmul (at2 W i k) (at2 ?V k d)) [0..<T] = map (\<lambda>k. Fin (w i k * v k d)) [0..<T]"
      by (rule map_cong) (simp_all add: at[OF i] real_arr2_def)
    then have "at2 ?R i d = Fin (\<Sum>j<T. w i j * v j d)"
      by (simp only: arr2.sel fsum_Fin_upt)
    also have "(\<Sum>j<T. w i j * v j d) = (\<Sum>j\<le>i. w i j * v j d)"
      using i by (intro sum.mono_neutral_right) (auto simp: zero[OF i])
    finally show ?thesis .
  qed
  have w00: "w 0 0 = 1" using one[OF assms(1)] by simp
  have row0: "at2 ?R 0 d = Fin (v 0 d)" for d
    using entry[OF assms(1), of d] by (simp add: w00)
  show ?thesis
  proof (intro exI conjI allI impI)
    show "attention_weights (real_arr2 T D q) (real_arr2 T D k) = Inr W" by (rule W)
    show "shape0 W = T" "shape1 W = T" by (rule sh)+
    show "scaled_dot_product_attention (real_arr2 T D q) (real_arr2 T D k) (real_arr2 T D v) = Inr ?R"
      by (rule R)
    show "shape0 ?R = T" "shape1 ?R = D" by simp_all
  next
    fix i j assume ij: "i < T" "j < T"
    show "at2 W i j = Fin (w i j)" by (rule at[OF ij])
    show "0 \<le> w i j" by (rule nonneg[OF ij])
    show "at2 W i j = Fin 0" if "i < j" using that by (simp only: at[OF ij] zero[OF ij])
  next
    fix i assume "i < T"
    then show "(\<Sum>j\<le>i. w i j) = 1" by (rule one)
  next
    fix i d assume "i < T"
    then show "at2 ?R i d = Fin (\<Sum>j\<le>i. w i j * v j d)" by (rule entry)
  next
    fix d show "at2 ?R 0 d = Fin (v 0 d)" by (rule row0)
  qed
qed

theorem causal_attention_witness:
  "\<exists>W R. attention_weights (real_arr2 2 1 (\<lambda>i j. 0)) (real_arr2 2 1 (\<lambda>i j. 0)) = Inr W \<and>
         at2 W 0 1 = Fin 0 \<and>
         scaled_dot_product_attention (real_arr2 2 1 (\<lambda>i j. 0)) (real_arr2 2 1 (\<lambda>i j. 0))
           (real_arr2 2 1 (\<lambda>i j. real i + 3)) = Inr R \<and>
         shape0 R = 2 \<and> shape1 R = 1 \<and> at2 R 0 0 = Fin 3"
proof -
  have T: "0 < (2::nat)" and D: "0 < (1::nat)" by simp_all
  from causal_attention[OF T D, of "\<lambda>i j. 0" "\<lambda>i j. 0" "\<lambda>i j. real i + 3"]
  obtain W w R where
    W: "attention_weights (real_arr2 2 1 (\<lambda>i j. 0)) (real_arr2 2 1 (\<lambda>i j. 0)) = Inr W"
    and "shape0 W = 2" and "shape1 W = 2"
    and w: "\<forall>i<2. \<forall>j<2. at2 W i j = Fin (w i j) \<and> 0 \<le> w i j \<and> (i < j \<longrightarrow> at2 W i j = Fin 0)"
    and "\<forall>i<2. (\<Sum>j\<le>i. w i j) = 1"
    and R: "scaled_dot_product_attention (real_arr2 2 1 (\<lambda>i j. 0)) (real_arr2 2 1 (\<lambda>i j. 0))
           (real_arr2 2 1 (\<lambda>i j. real i + 3)) = Inr R"
    and sh: "shape0 R = 2" "shape1 R = 1"
    and "\<forall>i<2. \<forall>d<1. at2 R i d = Fin (\<Sum>j\<le>i. w i j * (real j + 3))"
    and r0: "\<forall>d<1. at2 R 0 d = Fin (real 0 + 3)"
    by (elim exE conjE)
  have "at2 W 0 1 = Fin 0" using w[rule_format, of 0 1] by auto
  moreover have "at2 R 0 0 = Fin 3" using r0[rule_format, of 0] by simp
  ultimately show ?thesis using W R sh by (intro exI[of _ W] exI[of _ R]) simp
qed

text \<open>Arrays with an empty dimension: no row makes \<open>np.max\<close> raise, no column makes the scores \<open>0/0\<close>.\<close>

lemma attention_no_rows:
  "scaled_dot_product_attention (real_arr2 0 D q) (real_arr2 0 D k) V = Inl ValueError"
  by (simp add: scaled_dot_product_attention_def attention_weights_def matmul_def transpose2_def
      real_arr2_def map_arr2_def causal_mask_def broadcast2_def bdim_def softmax2_def)

lemma attention_no_columns:
  "\<exists>W. attention_weights (real_arr2 1 0 q) (real_arr2 1 0 k) = Inr W \<and> at2 W 0 0 = NaN"
  by (simp add: attention_weights_def matmul_def transpose2_def
      real_arr2_def map_arr2_def causal_mask_def broadcast2_def bdim_def bidx_def softmax2_def
      row_def softmax_def softmax_shift_def fsum_def fsub_def)

section \<open>Shapes through the transformer block\<close>

lemma bdim_one: "bdim n (Suc 0) = Some n"
  by (simp add: bdim_def)

lemma as_row_sel: "shape0 (as_row b) = Suc 0" "shape1 (as_row b) = length b"
  "at2 (as_row b) i j = b ! j"
  by (simp_all add: as_row_def)

lemma shape_map_arr2: "shape0 (map_arr2 f A) = shape0 A" "shape1 (map_arr2 f A) = shape1 A"
  by (simp_all add: map_arr2_def)

lemma shape_transpose2: "shape0 (transpose2 A) = shape1 A" "shape1 (transpose2 A) = shape0 A"
  by (simp_all add: transpose2_def)

lemma shape_causal_mask: "shape0 (causal_mask n) = n" "shape1 (causal_mask n) = n"
  by (simp_all add: causal_mask_def)

lemma shape_layer_norm: "shape0 (layer_norm x eps) = shape0 x" "shape1 (layer_norm x eps) = shape1 x"
  by (simp_all add: layer_norm_def)

lemma shape_relu: "shape0 (relu x) = shape0 x" "shape1 (relu x) = shape1 x"
  by (simp_all add: relu_def map_arr2_def)

lemma matmul_shape:
  assumes "shape1 A = shape0 B"
  obtains C where "matmul A B = Inr C" "shape0 C = shape0 A" "shape1 C = shape1 B"
  using assms by (simp add: matmul_def)

lemma broadcast2_same:
  assumes "shape0 A = shape0 B" "shape1 A = shape1 B"
  obtains C where "broadcast2 f A B = Inr C" "shape0 C = shape0 A" "shape1 C = shape1 A"
    "\<forall>i < shape0 A. \<forall>j < shape1 A. at2 C i j = f (at2 A i j) (at2 B i j)"
proof -
  let ?C = "Arr2 (shape0 A) (shape1 A)
     (\<lambda>i j. f (at2 A (bidx (shape0 A) i) (bidx (shape1 A) j))
              (at2 B (bidx (shape0 B) i) (bidx (shape1 B) j)))"
  have "broadcast2 f A B = Inr ?C"
    by (simp add: broadcast2_def assms bdim_same)
  moreover have "at2 ?C i j = f (at2 A i j) (at2 B i j)" if "i < shape0 A" "j < shape1 A" for i j
    using that assms by (simp add: bidx_id)
  ultimately show ?thesis using that[of ?C] by simp
qed

lemma broadcast2_bias:
  assumes "shape1 A = length b"
  obtains C where "broadcast2 f A (as_row b) = Inr C" "shape0 C = shape0 A" "shape1 C = shape1 A"
    "\<forall>i < shape0 A. \<forall>j < shape1 A. at2 C i j = f (at2 A i j) (b ! j)"
proof -
  let ?C = "Arr2 (shape0 A) (shape1 A)
     (\<lambda>i j. f (at2 A (bidx (shape0 A) i) (bidx (shape1 A) j))
              (at2 (as_row b) (bidx (Suc 0) i) (bidx (length b) j)))"
  have "broadcast2 f A (as_row b) = Inr ?C"
    by (simp add: broadcast2_def as_row_sel assms bdim_same bdim_one)
  moreover have "at2 ?C i j = f (at2 A i j) (b ! j)" if "i < shape0 A" "j < shape1 A" for i j
    using that assms by (simp add: bidx_id as_row_sel)
  ultimately show ?thesis using that[of ?C] by simp
qed

lemma attention_shape:
  assumes "0 < shape0 Q" "shape0 K = shape0 Q" "shape1 K = shape1 Q" "shape0 V = shape0 Q"
  obtains R where "scaled_dot_product_attention Q K V = Inr R"
    "shape0 R = shape0 Q" "shape1 R = shape1 V"
proof -
  have "shape1 Q = shape0 (transpose2 K)" by (simp add: shape_transpose2 assms)
  then obtain qk where qk: "matmul Q (transpose2 K) = Inr qk" "shape0 qk = shape0 Q"
      "shape1 qk = shape1 (transpose2 K)"
    by (rule matmul_shape)
  let ?scores = "map_arr2 (\<lambda>v. fdiv v (Fin (sqrt (real (shape1 Q))))) qk"
  let ?mask = "causal_mask (shape0 Q)"
  have "shape0 ?mask = shape0 ?scores" "shape1 ?mask = shape1 ?scores"
    by (simp_all add: shape_causal_mask shape_map_arr2 qk shape_transpose2 assms)
  then obtain masked where m: "broadcast2 (\<lambda>m s. if m = Fin 1 then s else NInf) ?mask ?scores = Inr masked"
      "shape0 masked = shape0 ?mask" "shape1 masked = shape1 ?mask"
    by (rule broadcast2_same)
  let ?W = "Arr2 (shape0 masked) (shape1 masked)
        (\<lambda>i j. case softmax (row masked i) of Inr r \<Rightarrow> r ! j | Inl e \<Rightarrow> NaN)"
  have W: "softmax2 masked = Inr ?W"
    using assms(1) by (simp add: softmax2_def m shape_causal_mask)
  have aw: "attention_weights Q K = Inr ?W"
    by (simp only: attention_weights_def Let_def qk m W sum.case)
  have "shape1 ?W = shape0 V" by (simp add: m shape_causal_mask assms)
  then obtain R where R: "matmul ?W V = Inr R" "shape0 R = shape0 ?W" "shape1 R = shape1 V"
    by (rule matmul_shape)
  show ?thesis
  proof (rule that[of R])
    show "scaled_dot_product_attention Q K V = Inr R"
      by (simp only: scaled_dot_product_attention_def aw R sum.case)
    show "shape0 R = shape0 Q" by (simp add: R m shape_causal_mask)
    show "shape1 R = shape1 V" by (rule R)
  qed
qed

lemma feed_forward_shape:
  assumes "shape1 x = shape0 W1" "shape1 W1 = length b1" "shape1 W1 = shape0 W2"
    "shape1 W2 = length b2"
  obtains y where "feed_forward x W1 b1 W2 b2 = Inr y" "shape0 y = shape0 x" "shape1 y = shape1 W2"
proof -
  obtain h where h: "matmul x W1 = Inr h" "shape0 h = shape0 x" "shape1 h = shape1 W1"
    using assms(1) by (rule matmul_shape)
  have "shape1 h = length b1" using assms(2) by (simp add: h)
  then obtain hb where hb: "broadcast2 fadd h (as_row b1) = Inr hb" "shape0 hb = shape0 h"
      "shape1 hb = shape1 h"
    by (rule broadcast2_bias)
  have "shape1 (relu hb) = shape0 W2" using assms(3) by (simp add: shape_relu hb h)
  then obtain y where y: "matmul (relu hb) W2 = Inr y" "shape0 y = shape0 (relu hb)"
      "shape1 y = shape1 W2"
    by (rule matmul_shape)
  have "shape1 y = length b2" using assms(4) by (simp add: y)
  then obtain z where z: "broadcast2 fadd y (as_row b2) = Inr z" "shape0 z = shape0 y"
      "shape1 z = shape1 y"
    by (rule broadcast2_bias)
  show ?thesis
  proof (rule that[of z])
    show "feed_forward x W1 b1 W2 b2 = Inr z"
      by (simp only: feed_forward_def h hb y z sum.case)
    show "shape0 z = shape0 x" by (simp add: z y shape_relu hb h)
    show "shape1 z = shape1 W2" by (simp add: z y)
  qed
qed

text \<open>
  C3. For every \<open>T \<times> D\<close> input \<open>x\<close> (\<open>T \<ge> 1\<close>) and conforming weights (\<open>W_q\<close>, \<open>W_k\<close>, \<open>W_v\<close> of shape
  \<open>D \<times> D\<close>, \<open>W1\<close> of shape \<open>D \<times> H\<close>, \<open>b1\<close> of length \<open>H\<close>, \<open>W2\<close> of shape \<open>H \<times> D\<close>, \<open>b2\<close> of length \<open>D\<close>)
  every stage of \<open>transformer_block\<close> succeeds and the result is the post-norm composition
  in this order: \<open>y = layer_norm (x + attention (x W_q) (x W_k) (x W_v))\<close>, then
  \<open>layer_norm (y + feed_forward y W1 b1 W2 b2)\<close>, both sums elementwise, the result of
  shape \<open>T \<times> D\<close>.
\<close>

theorem transformer_block_post_norm:
  assumes "0 < T"
    and "shape0 x = T" "shape1 x = D"
    and "shape0 W_q = D" "shape1 W_q = D"
    and "shape0 W_k = D" "shape1 W_k = D"
    and "shape0 W_v = D" "shape1 W_v = D"
    and "shape0 W1 = D" "shape1 W1 = H" "length b1 = H"
    and "shape0 W2 = H" "shape1 W2 = D" "length b2 = D"
  shows "\<exists>Q K V attn xa ffn xf.
      matmul x W_q = Inr Q \<and> matmul x W_k = Inr K \<and> matmul x W_v = Inr V \<and>
      scaled_dot_product_attention Q K V = Inr attn \<and>
      broadcast2 fadd x attn = Inr xa \<and>
      (\<forall>i<T. \<forall>j<D. at2 xa i j = fadd (at2 x i j) (at2 attn i j)) \<and>
      feed_forward (layer_norm xa default_eps) W1 b1 W2 b2 = Inr ffn \<and>
      broadcast2 fadd (layer_norm xa default_eps) ffn = Inr xf \<and>
      (\<forall>i<T. \<forall>j<D. at2 xf i j = fadd (at2 (layer_norm xa default_eps) i j) (at2 ffn i j)) \<and>
      transformer_block x W_q W_k W_v W1 b1 W2 b2 = Inr (layer_norm xf default_eps) \<and>
      shape0 (layer_norm xf default_eps) = T \<and> shape1 (layer_norm xf default_eps) = D"
proof -
  have "shape1 x = shape0 W_q" "shape1 x = shape0 W_k" "shape1 x = shape0 W_v"
    by (simp_all add: assms)
  then obtain Q K V where Q: "matmul x W_q = Inr Q" "shape0 Q = shape0 x" "shape1 Q = shape1 W_q"
    and K: "matmul x W_k = Inr K" "shape0 K = shape0 x" "shape1 K = shape1 W_k"
    and V: "matmul x W_v = Inr V" "shape0 V = shape0 x" "shape1 V = shape1 W_v"
    by (elim matmul_shape)
  have "0 < shape0 Q" "shape0 K = shape0 Q" "shape1 K = shape1 Q" "shape0 V = shape0 Q"
    by (simp_all add: Q K V assms)
  then obtain attn where attn: "scaled_dot_product_attention Q K V = Inr attn"
      "shape0 attn = shape0 Q" "shape1 attn = shape1 V"
    by (rule attention_shape)
  have "shape0 x = shape0 attn" "shape1 x = shape1 attn"
    by (simp_all add: attn Q V assms)
  then obtain xa where xa: "broadcast2 fadd x attn = Inr xa" "shape0 xa = shape0 x"
      "shape1 xa = shape1 x"
      and xa_at: "\<forall>i < shape0 x. \<forall>j < shape1 x. at2 xa i j = fadd (at2 x i j) (at2 attn i j)"
    by (rule broadcast2_same[where f=fadd])
  let ?x1 = "layer_norm xa default_eps"
  have "shape1 ?x1 = shape0 W1" "shape1 W1 = length b1" "shape1 W1 = shape0 W2"
    "shape1 W2 = length b2"
    by (simp_all add: shape_layer_norm xa assms)
  then obtain ffn where ffn: "feed_forward ?x1 W1 b1 W2 b2 = Inr ffn" "shape0 ffn = shape0 ?x1"
      "shape1 ffn = shape1 W2"
    by (rule feed_forward_shape)
  have "shape0 ?x1 = shape0 ffn" "shape1 ?x1 = shape1 ffn"
    by (simp_all add: ffn shape_layer_norm xa assms)
  then obtain xf where xf: "broadcast2 fadd ?x1 ffn = Inr xf" "shape0 xf = shape0 ?x1"
      "shape1 xf = shape1 ?x1"
      and xf_at: "\<forall>i < shape0 ?x1. \<forall>j < shape1 ?x1. at2 xf i j = fadd (at2 ?x1 i j) (at2 ffn i j)"
    by (rule broadcast2_same[where f=fadd])
  have tb: "transformer_block x W_q W_k W_v W1 b1 W2 b2 = Inr (layer_norm xf default_eps)"
    by (simp only: transformer_block_def bind_err_def Q K V attn xa ffn xf Let_def sum.case)
  show ?thesis
  proof (intro exI conjI allI impI)
    show "matmul x W_q = Inr Q" "matmul x W_k = Inr K" "matmul x W_v = Inr V" by (rule Q K V)+
    show "scaled_dot_product_attention Q K V = Inr attn" by (rule attn)
    show "broadcast2 fadd x attn = Inr xa" by (rule xa)
    show "feed_forward ?x1 W1 b1 W2 b2 = Inr ffn" by (rule ffn)
    show "broadcast2 fadd ?x1 ffn = Inr xf" by (rule xf)
    show "transformer_block x W_q W_k W_v W1 b1 W2 b2 = Inr (layer_norm xf default_eps)"
      by (rule tb)
    show "shape0 (layer_norm xf default_eps) = T" "shape1 (layer_norm xf default_eps) = D"
      by (simp_all add: shape_layer_norm xf xa assms)
  next
    fix i j assume "i < T" "j < D"
    then show "at2 xa i j = fadd (at2 x i j) (at2 attn i j)"
      using xa_at by (simp add: assms)
  next
    fix i j assume "i < T" "j < D"
    then show "at2 xf i j = fadd (at2 ?x1 i j) (at2 ffn i j)"
      using xf_at by (simp add: shape_layer_norm xa assms)
  qed
qed

theorem transformer_block_post_norm_witness:
  "\<exists>R. transformer_block (real_arr2 3 2 (\<lambda>i j. real i + real j)) (real_arr2 2 2 (\<lambda>i j. 1))
          (real_arr2 2 2 (\<lambda>i j. 1)) (real_arr2 2 2 (\<lambda>i j. 1))
          (real_arr2 2 4 (\<lambda>i j. 1)) [Fin 0, Fin 0, Fin 0, Fin 0]
          (real_arr2 4 2 (\<lambda>i j. 1)) [Fin 0, Fin 0] = Inr R \<and>
        shape0 R = 3 \<and> shape1 R = 2"
proof -
  let ?x = "real_arr2 3 2 (\<lambda>i j. real i + real j)" and ?W = "real_arr2 2 2 (\<lambda>i j. 1)"
  let ?W1 = "real_arr2 2 4 (\<lambda>i j. 1)" and ?W2 = "real_arr2 4 2 (\<lambda>i j. 1)"
  let ?b1 = "[Fin 0, Fin 0, Fin 0, Fin 0]" and ?b2 = "[Fin 0, Fin 0]"
  have "\<exists>Q K V attn xa ffn xf.
      matmul ?x ?W = Inr Q \<and> matmul ?x ?W = Inr K \<and> matmul ?x ?W = Inr V \<and>
      scaled_dot_product_attention Q K V = Inr attn \<and>
      broadcast2 fadd ?x attn = Inr xa \<and>
      (\<forall>i<3. \<forall>j<2. at2 xa i j = fadd (at2 ?x i j) (at2 attn i j)) \<and>
      feed_forward (layer_norm xa default_eps) ?W1 ?b1 ?W2 ?b2 = Inr ffn \<and>
      broadcast2 fadd (layer_norm xa default_eps) ffn = Inr xf \<and>
      (\<forall>i<3. \<forall>j<2. at2 xf i j = fadd (at2 (layer_norm xa default_eps) i j) (at2 ffn i j)) \<and>
      transformer_block ?x ?W ?W ?W ?W1 ?b1 ?W2 ?b2 = Inr (layer_norm xf default_eps) \<and>
      shape0 (layer_norm xf default_eps) = 3 \<and> shape1 (layer_norm xf default_eps) = 2"
    by (rule transformer_block_post_norm[where T=3 and D=2 and H=4]) (simp_all add: shape_real)
  then show ?thesis by blast
qed

section \<open>Cross-entropy on real logits\<close>









section \<open>Sorting order and random choice\<close>

lemma cumsum_from_Fin:
  "cumsum_from (Fin a) (map Fin ps) = map (\<lambda>i. Fin (a + sum_list (take (Suc i) ps))) [0..<length ps]"
proof (induction ps arbitrary: a)
  case Nil
  then show ?case by simp
next
  case (Cons x ps)
  have "map (\<lambda>i. Fin (a + sum_list (take (Suc i) (x # ps)))) [0..<length (x # ps)]
      = Fin (a + x) # map (\<lambda>i. Fin (a + x + sum_list (take (Suc i) ps))) [0..<length ps]"
    by (simp add: map_upt_Suc add.assoc del: upt_Suc)
  then show ?case by (simp add: Cons.IH)
qed

lemma cumsum_Fin:
  "cumsum (map Fin ps) = map (\<lambda>i. Fin (sum_list (take (Suc i) ps))) [0..<length ps]"
  by (simp add: cumsum_def cumsum_from_Fin)

lemma length_takeWhile_less:
  assumes "x \<in> set xs" "\<not> P x"
  shows "length (takeWhile P xs) < length xs"
proof -
  have "takeWhile P xs \<noteq> xs" using assms by (auto simp: takeWhile_eq_all_conv)
  moreover have "length (takeWhile P xs) \<le> length xs" by (rule length_takeWhile_le)
  ultimately show ?thesis
    by (metis le_neq_implies_less takeWhile_eq_take take_all order_refl)
qed

text \<open>\<open>np.random.choice\<close> once its argument checks have passed.\<close>

lemma choice_eval:
  assumes "a \<noteq> []" "length ps = length a"
    and c1: "fsum (map Fin ps) = Fin 1"
    and c2: "\<not> list_ex (\<lambda>x. flt x (Fin 0)) (map Fin ps)"
    and cdf: "cumsum (map Fin ps) = cdf"
    and cdf': "map (\<lambda>c. fdiv c (last cdf)) cdf = cdf"
    and i: "searchsorted_right cdf (Fin (g 0)) < length a"
  shows "choice a (map Fin ps) g = Inr (a ! searchsorted_right cdf (Fin (g 0)), \<lambda>n. g (Suc n))"
proof -
  have len: "length (map Fin ps) = length a" using assms(2) by simp
  have nn: "Fin 1 \<noteq> NaN" by simp
  have c3: "\<not> flt (Fin choice_atol) (fabs (fsub (Fin 1) (Fin 1)))"
    by (simp add: fsub_def choice_atol_def)
  show ?thesis
    unfolding choice_def
    by (simp only: assms(1) len c1 nn c2 c3 cdf cdf' i if_False if_True Let_def random_sample_def
        prod.case simp_thms)
qed

lemma choice_in:
  assumes "a \<noteq> []" "length ps = length a" "\<forall>p\<in>set ps. 0 \<le> p" "sum_list ps = 1" "g 0 < 1"
  shows "\<exists>r. choice a (map Fin ps) g = Inr (r, \<lambda>n. g (Suc n)) \<and> r \<in> set a"
proof -
  define cdf where "cdf = map (\<lambda>i. Fin (sum_list (take (Suc i) ps))) [0..<length ps]"
  have ne: "ps \<noteq> []" using assms(1,2) by auto
  have c1: "fsum (map Fin ps) = Fin 1" by (simp add: fsum_Fin assms)
  have c2: "\<not> list_ex (\<lambda>x. flt x (Fin 0)) (map Fin ps)"
    using assms(3) by (auto simp: list_ex_iff not_less)
  have cne: "cdf \<noteq> []" using ne by (simp add: cdf_def)
  have last: "last cdf = Fin 1"
    using ne assms(4) by (simp add: cdf_def last_map last_conv_nth)
  have cdf': "map (\<lambda>c. fdiv c (last cdf)) cdf = cdf"
    unfolding last by (simp add: cdf_def comp_def)
  have in_cdf: "Fin 1 \<in> set cdf" using last_in_set[OF cne] by (simp only: last)
  have "\<not> \<not> sort_lt (Fin (g 0)) (Fin 1)" using assms(5) by (simp add: sort_lt_def)
  with in_cdf have "length (takeWhile (\<lambda>c. \<not> sort_lt (Fin (g 0)) c) cdf) < length cdf"
    by (rule length_takeWhile_less[where x="Fin 1" and P="\<lambda>c. \<not> sort_lt (Fin (g 0)) c"])
  then have i: "searchsorted_right cdf (Fin (g 0)) < length a"
    by (simp add: searchsorted_right_def cdf_def assms(2))
  have "choice a (map Fin ps) g = Inr (a ! searchsorted_right cdf (Fin (g 0)), \<lambda>n. g (Suc n))"
    using assms(1,2) c1 c2 _ cdf' i
    by (rule choice_eval) (simp add: cumsum_Fin cdf_def)
  moreover have "a ! searchsorted_right cdf (Fin (g 0)) \<in> set a" using i by simp
  ultimately show ?thesis by blast
qed

lemma is_argsort_length: "is_argsort xs order \<Longrightarrow> length order = length xs"
  unfolding is_argsort_def using distinct_card[of order] by auto

lemma is_argsort_valid: "is_argsort xs order \<Longrightarrow> i \<in> set order \<Longrightarrow> i < length xs"
  unfolding is_argsort_def by auto

text \<open>Every real logit vector has a sorting order, so the parameter \<open>order\<close> is never void.\<close>

lemma is_argsort_stable: "is_argsort (map Fin x) (argsort_stable x)"
proof -
  let ?o = "argsort_stable x"
  have set: "set ?o = set [0..<length x]" by (simp add: argsort_stable_def)
  have "sorted (map (\<lambda>i. x ! i) ?o)" by (simp add: argsort_stable_def)
  then have "sorted_wrt (\<lambda>i j. x ! i \<le> x ! j) ?o" by (simp add: sorted_map)
  then have "sorted_wrt (\<lambda>i j. \<not> sort_lt (map Fin x ! j) (map Fin x ! i)) ?o"
  proof (rule sorted_wrt_mono_rel[rotated])
    fix i j assume "i \<in> set ?o" "j \<in> set ?o" "x ! i \<le> x ! j"
    then show "\<not> sort_lt (map Fin x ! j) (map Fin x ! i)"
      using set by (simp add: sort_lt_def)
  qed
  then show ?thesis by (simp add: is_argsort_def argsort_stable_def)
qed

lemma slice_from_last:
  assumes "1 \<le> k" "k \<le> int (length xs)"
  shows "slice_from (- k) xs = drop (length xs - nat k) xs"
proof -
  have "nat (max 0 (- k + int (length xs))) = length xs - nat k" using assms by auto
  then show ?thesis using assms by (simp add: slice_from_def Let_def)
qed

text \<open>Fewer than \<open>N - a\<close> entries rank strictly above the entry at position \<open>a\<close> of the sorted order.\<close>

lemma argsort_rank:
  assumes "is_argsort (map Fin x) order" "a < length x"
  shows "card {j. j < length x \<and> x ! (order ! a) < x ! j} < length x - a"
proof -
  let ?N = "length x"
  have len: "length order = ?N" using is_argsort_length[OF assms(1)] by simp
  have set: "set order = {0..<?N}" using assms(1) by (simp add: is_argsort_def)
  have srt: "sorted_wrt (\<lambda>i j. \<not> sort_lt (map Fin x ! j) (map Fin x ! i)) order"
    using assms(1) by (simp add: is_argsort_def)
  have valid: "order ! b < ?N" if "b < ?N" for b
    using that len set nth_mem[of b order] by auto
  have "{j. j < ?N \<and> x ! (order ! a) < x ! j} \<subseteq> (\<lambda>b. order ! b) ` {Suc a..<?N}"
  proof
    fix j assume "j \<in> {j. j < ?N \<and> x ! (order ! a) < x ! j}"
    then have j: "j < ?N" and lt: "x ! (order ! a) < x ! j" by auto
    from j have "j \<in> set order" by (simp add: set)
    then obtain b where b: "b < ?N" "order ! b = j" by (auto simp: in_set_conv_nth len)
    have "a < b"
    proof (rule ccontr)
      assume "\<not> a < b"
      then consider "b = a" | "b < a" by linarith
      then show False
      proof cases
        case 1
        then show False using lt b by simp
      next
        case 2
        then have "\<not> sort_lt (map Fin x ! (order ! a)) (map Fin x ! (order ! b))"
          using srt assms(2) len by (simp add: sorted_wrt_iff_nth_less)
        then show False using lt b valid[OF assms(2)] j by (simp add: sort_lt_def)
      qed
    qed
    then show "j \<in> (\<lambda>b. order ! b) ` {Suc a..<?N}" using b by auto
  qed
  then have "card {j. j < ?N \<and> x ! (order ! a) < x ! j} \<le> card ((\<lambda>b. order ! b) ` {Suc a..<?N})"
    by (intro card_mono) auto
  also have "\<dots> \<le> card {Suc a..<?N}" by (rule card_image_le) simp
  also have "\<dots> < ?N - a" using assms(2) by simp
  finally show ?thesis .
qed




lemma take_idx_Fin:
  assumes "\<forall>i\<in>set S. i < length x"
  shows "map (\<lambda>i. map Fin x ! i) S = map Fin (map (\<lambda>i. x ! i) S)"
  using assms by (simp add: comp_def cong: map_cong)

section \<open>Softmax of a selection\<close>

lemma softmax_selection:
  assumes "S \<noteq> []" "\<forall>i\<in>set S. i < length x"
  shows "softmax (map (\<lambda>i. map Fin x ! i) S) = Inr (map Fin (softmax_real (map (\<lambda>i. x ! i) S)))"
proof -
  have "map (\<lambda>i. x ! i) S \<noteq> []" using assms(1) by simp
  then have "softmax (map Fin (map (\<lambda>i. x ! i) S)) = Inr (map Fin (softmax_real (map (\<lambda>i. x ! i) S)))"
    by (rule softmax_real_row)
  then show ?thesis by (simp only: take_idx_Fin[OF assms(2)])
qed









section \<open>Top-k sampling\<close>

text \<open>
  C5. For every real logit vector of length \<open>N\<close>, every \<open>k\<close> with \<open>1 \<le> k \<le> N\<close>, every order that
  \<open>np.argsort\<close> may return and every state of the generator, \<open>top_k_sampling\<close> returns an id
  \<open>r < N\<close> taken from the last \<open>k\<close> ids of that order, and fewer than \<open>k\<close> ids have a logit
  strictly above that of \<open>r\<close>: \<open>r\<close> is among the \<open>k\<close> highest logits under any tie-break.
\<close>

theorem top_k_sampling_in_top_k:
  assumes "is_argsort (map Fin x) order" and "1 \<le> k" and "k \<le> int (length x)" and "valid_rng g"
  shows "\<exists>r. top_k_sampling order (map Fin x) k g = Inr (r, \<lambda>n. g (Suc n)) \<and>
             r < length x \<and> r \<in> set (drop (length x - nat k) order) \<and>
             card {j. j < length x \<and> x ! r < x ! j} < nat k"
proof -
  let ?N = "length x"
  let ?idx = "drop (?N - nat k) order"
  have len: "length order = ?N" using is_argsort_length[OF assms(1)] by simp
  have idx: "slice_from (- k) order = ?idx"
    using slice_from_last[of k order] assms(2,3) by (simp add: len)
  have ne: "?idx \<noteq> []" using assms(2,3) by (simp add: len)
  have valid: "\<forall>i\<in>set ?idx. i < ?N"
    using is_argsort_valid[OF assms(1)] by (auto dest: in_set_dropD)
  let ?ps = "softmax_real (map (\<lambda>i. x ! i) ?idx)"
  have tk: "top_k_sampling order (map Fin x) k g = choice ?idx (map Fin ?ps) g"
    by (simp only: top_k_sampling_def Let_def idx softmax_selection[OF ne valid] sum.case)
  have pne: "map (\<lambda>i. x ! i) ?idx \<noteq> []" using ne by simp
  have "g 0 < 1" using assms(4) by (simp add: valid_rng_def)
  moreover have "length ?ps = length ?idx" by (simp add: length_softmax_real)
  moreover have "\<forall>p\<in>set ?ps. 0 \<le> p" using softmax_real_nonneg[OF pne] by blast
  moreover have "sum_list ?ps = 1" by (rule softmax_real_sum[OF pne])
  ultimately obtain r where r: "choice ?idx (map Fin ?ps) g = Inr (r, \<lambda>n. g (Suc n))"
      "r \<in> set ?idx"
    using choice_in[OF ne, of ?ps g] by blast
  from r(2) obtain c where c: "c < length ?idx" "?idx ! c = r" by (auto simp: in_set_conv_nth)
  define a where "a = ?N - nat k + c"
  have a: "a < ?N" "order ! a = r" "?N - a \<le> nat k"
    using c assms(2,3) by (auto simp: a_def len)
  have "card {j. j < ?N \<and> x ! (order ! a) < x ! j} < ?N - a"
    using assms(1) a(1) by (rule argsort_rank)
  then have "card {j. j < ?N \<and> x ! r < x ! j} < nat k" using a by simp
  moreover have "r < ?N" using valid r(2) by blast
  ultimately show ?thesis using tk r by auto
qed

theorem top_k_sampling_in_top_k_witness:
  "\<exists>r. top_k_sampling [1, 2, 0] (map Fin [3, 1, 2]) 2 (\<lambda>n. 0) = Inr (r, \<lambda>n. 0) \<and>
       r < 3 \<and> (r = 2 \<or> r = 0)"
proof -
  have srt: "is_argsort (map Fin [3, 1, 2]) [1, 2, 0]"
    by (simp add: is_argsort_def sort_lt_def upt_rec_numeral) auto
  have k: "(1::int) \<le> 2" "(2::int) \<le> int (length [3, 1, 2::real])" by simp_all
  have g: "valid_rng (\<lambda>n. 0)" by (simp add: valid_rng_def)
  from top_k_sampling_in_top_k[OF srt k g]
  obtain r where "top_k_sampling [1, 2, 0] (map Fin [3, 1, 2]) 2 (\<lambda>n. 0) = Inr (r, \<lambda>n. 0)"
    "r < length [3, 1, 2::real]" "r \<in> set (drop (length [3, 1, 2::real] - nat 2) [1, 2, 0])"
    by blast
  then show ?thesis by (intro exI[of _ r]) auto
qed

section \<open>Top-p sampling\<close>




text \<open>With an empty vocabulary there is no id to return: softmax raises on the empty array.\<close>

lemma top_p_sampling_empty: "top_p_sampling [] [] p g = Inl ValueError"
  by (simp add: top_p_sampling_def top_p_selected_def softmax_def)

end
